(* ===== verification/Prelude.thy ===== *)
theory Prelude
  imports Main "HOL-Library.Word" "HOL-Library.Monad_Syntax"
begin

text \<open>
  Shared vocabulary of the development: the machine integers of \<^verbatim>\<open>inc/types.h\<close>, the
  convention for panics, the generic lemmas on words and options, and the
  singly linked free lists that thread through the arrays \<^verbatim>\<open>pages\<close> and \<^verbatim>\<open>envs\<close>.

  A kernel function that may panic returns \<open>'a option\<close>: \<open>None\<close> is the panic, and the
  \<open>do\<close> notation of the option monad sequences the calls.  A C function that changes
  global variables takes the state and returns it updated next to its result.
\<close>

unbundle bit_operations_syntax

type_synonym u8 = "8 word"
type_synonym u16 = "16 word"
type_synonym u32 = "32 word"
type_synonym u64 = "64 word"

named_theorems jos_consts \<open>the constants of the headers, unfolded\<close>
named_theorems panic_split \<open>case analysis of a panicking computation\<close>

subsection \<open>Panics\<close>

definition assert_ok :: "bool \<Rightarrow> unit option" where
  "assert_ok b = (if b then Some () else None)"

lemma assert_ok_simps [simp]:
  "assert_ok True = Some ()" "assert_ok False = None"
  "assert_ok b = Some u \<longleftrightarrow> b" "assert_ok b = None \<longleftrightarrow> \<not> b"
  by (auto simp: assert_ok_def)

lemmas bind_Some [panic_split] = Option.bind_eq_Some_conv

text \<open>A loop over a list whose body may panic.\<close>

primrec foldM :: "('x \<Rightarrow> 's \<Rightarrow> 's option) \<Rightarrow> 'x list \<Rightarrow> 's \<Rightarrow> 's option" where
  "foldM f [] s = Some s"
| "foldM f (x # xs) s = do { s1 \<leftarrow> f x s; foldM f xs s1 }"

lemma foldM_append: "foldM f (xs @ ys) s = do { s1 \<leftarrow> foldM f xs s; foldM f ys s1 }"
  by (induction xs arbitrary: s) (auto split: Option.bind_split)

text \<open>An invariant of the body, indexed by the elements already visited, holds after the loop.\<close>

lemma foldM_rule:
  assumes "P [] s"
    and "\<And>xs x s. P xs s \<Longrightarrow> x \<in> set zs \<Longrightarrow> x \<notin> set xs \<Longrightarrow> \<exists>s'. f x s = Some s' \<and> P (xs @ [x]) s'"
    and "distinct zs"
  shows "\<exists>s'. foldM f zs s = Some s' \<and> P zs s'"
proof -
  have "\<exists>s'. foldM f ys s = Some s' \<and> P ys s'" if "ys @ ws = zs" for ys ws
    using that
  proof (induction ys arbitrary: ws rule: rev_induct)
    case Nil
    then show ?case using assms(1) by simp
  next
    case (snoc y ys)
    then obtain s1 where "foldM f ys s = Some s1" "P ys s1" by fastforce
    moreover have "y \<in> set zs" "y \<notin> set ys" using snoc.prems assms(3) by auto
    ultimately show ?case using assms(2) [of ys s1 y] by (auto simp: foldM_append)
  qed
  then show ?thesis by simp
qed

subsection \<open>Words\<close>

text \<open>Division of signed C integers truncates towards zero.\<close>

definition c_div :: "int \<Rightarrow> int \<Rightarrow> int" where
  "c_div a b = sgn a * sgn b * (\<bar>a\<bar> div \<bar>b\<bar>)"

definition c_mod :: "int \<Rightarrow> int \<Rightarrow> int" where
  "c_mod a b = a - c_div a b * b"

lemma unat_lt_1024: "unat (w AND 0x3FF :: u32) < 1024"
proof -
  have "w AND 0x3FF \<le> (0x3FF :: u32)" by (rule word_and_le1)
  then show ?thesis by (simp add: word_le_nat_alt)
qed

subsection \<open>Linked lists threaded through an array\<close>

text \<open>
  \<open>chain link f p xs\<close>: following \<open>link\<close> from \<open>p\<close> through the array \<open>f\<close> visits
  exactly the indices \<open>xs\<close> and ends in NULL.
\<close>

primrec chain :: "('n \<Rightarrow> nat option) \<Rightarrow> (nat \<Rightarrow> 'n) \<Rightarrow> nat option \<Rightarrow> nat list \<Rightarrow> bool" where
  "chain link f p [] \<longleftrightarrow> p = None"
| "chain link f p (x # xs) \<longleftrightarrow> p = Some x \<and> chain link f (link (f x)) xs"

lemma chain_None [simp]: "chain link f None xs \<longleftrightarrow> xs = []"
  by (cases xs) auto

lemma chain_Some: "chain link f (Some x) xs \<longleftrightarrow> (\<exists>ys. xs = x # ys \<and> chain link f (link (f x)) ys)"
  by (cases xs) auto

lemma chain_unique: "chain link f p xs \<Longrightarrow> chain link f p ys \<Longrightarrow> xs = ys"
  by (induction xs arbitrary: p ys) (auto simp: chain_Some)

lemma chain_frame: "(\<And>x. x \<in> set xs \<Longrightarrow> link (g x) = link (f x)) \<Longrightarrow> chain link g p xs = chain link f p xs"
  by (induction xs arbitrary: p) auto

lemma chain_upd_notin [simp]: "x \<notin> set xs \<Longrightarrow> chain link (f(x := n)) p xs = chain link f p xs"
  by (rule chain_frame) auto

text \<open>
  The interface the allocators rely on: a node whose link can be overwritten without
  disturbing the rest.  \<^verbatim>\<open>struct PageInfo\<close> and \<^verbatim>\<open>struct Env\<close> both provide it.
\<close>

locale linked_nodes =
  fixes link :: "'n \<Rightarrow> nat option"
    and set_link :: "nat option \<Rightarrow> 'n \<Rightarrow> 'n"
  assumes link_set: "link (set_link l n) = l"
begin

lemma chain_pop:
  assumes "chain link f (Some x) xs" and "distinct xs"
  obtains ys where "xs = x # ys"
    and "chain link (f(x := set_link None (f x))) (link (f x)) ys"
    and "x \<notin> set ys"
  using assms by (auto simp: chain_Some)

lemma chain_push:
  assumes "chain link f p xs" and "x \<notin> set xs"
  shows "chain link (f(x := set_link p (f x))) (Some x) (x # xs)"
  using assms by (simp add: link_set)

lemma chain_push_pop:
  assumes "chain link f p xs" and "x \<notin> set xs" and "link (f x) = None"
    and g: "g = f(x := set_link p (f x))"
  shows "link (g x) = p \<and> chain link (g(x := set_link None (g x))) p xs"
  using assms by (simp add: link_set)

end


section \<open>Error codes\<close>

text \<open>The codes of \<^verbatim>\<open>inc/error.h\<close>, which the kernel and the user library share.\<close>

definition E_UNSPECIFIED :: int where [jos_consts]: "E_UNSPECIFIED = 1"
definition E_BAD_ENV :: int where [jos_consts]: "E_BAD_ENV = 2"
definition E_INVAL :: int where [jos_consts]: "E_INVAL = 3"
definition E_NO_MEM :: int where [jos_consts]: "E_NO_MEM = 4"
definition E_NO_FREE_ENV :: int where [jos_consts]: "E_NO_FREE_ENV = 5"
definition E_FAULT :: int where [jos_consts]: "E_FAULT = 6"
definition E_IPC_NOT_RECV :: int where [jos_consts]: "E_IPC_NOT_RECV = 7"
definition E_EOF :: int where [jos_consts]: "E_EOF = 8"
definition E_NO_DISK :: int where [jos_consts]: "E_NO_DISK = 9"
definition E_MAX_OPEN :: int where [jos_consts]: "E_MAX_OPEN = 10"
definition E_NOT_FOUND :: int where [jos_consts]: "E_NOT_FOUND = 11"
definition E_BAD_PATH :: int where [jos_consts]: "E_BAD_PATH = 12"
definition E_FILE_EXISTS :: int where [jos_consts]: "E_FILE_EXISTS = 13"
definition E_NOT_EXEC :: int where [jos_consts]: "E_NOT_EXEC = 14"
definition E_NOT_SUPP :: int where [jos_consts]: "E_NOT_SUPP = 15"

definition MAXERROR :: nat where [jos_consts]: "MAXERROR = 16"

end
