(* ===== verification/Mmu.thy ===== *)
theory Mmu
  imports Prelude
begin

text \<open>
  The arithmetic of addresses: the rounding macros of \<^verbatim>\<open>inc/types.h\<close>, the memory map of
  \<^verbatim>\<open>inc/memlayout.h\<close>, the address and page-table-entry macros of \<^verbatim>\<open>inc/mmu.h\<close>, and the
  conversions between physical addresses, kernel virtual addresses and page frames of
  \<^verbatim>\<open>kern/pmap.h\<close>.  Addresses are 32-bit words, so every sum wraps as it does in C.
\<close>

section \<open>Rounding (inc/types.h)\<close>

definition ROUNDDOWN :: "u32 \<Rightarrow> u32 \<Rightarrow> u32" where
  "ROUNDDOWN a n = a - a mod n"

definition ROUNDUP :: "u32 \<Rightarrow> u32 \<Rightarrow> u32" where
  "ROUNDUP a n = ROUNDDOWN (a + n - 1) n"

section \<open>Paging constants and macros (inc/mmu.h)\<close>

definition PGSIZE :: u32 where [jos_consts]: "PGSIZE = 4096"
definition NPDENTRIES :: nat where [jos_consts]: "NPDENTRIES = 1024"
definition NPTENTRIES :: nat where [jos_consts]: "NPTENTRIES = 1024"
definition PTSIZE :: u32 where [jos_consts]: "PTSIZE = 4096 * 1024"
definition PGSHIFT :: nat where [jos_consts]: "PGSHIFT = 12"
definition PTXSHIFT :: nat where [jos_consts]: "PTXSHIFT = 12"
definition PDXSHIFT :: nat where [jos_consts]: "PDXSHIFT = 22"

definition PGNUM :: "u32 \<Rightarrow> u32" where
  "PGNUM la = drop_bit PTXSHIFT la"

definition PDX :: "u32 \<Rightarrow> u32" where
  "PDX la = drop_bit PDXSHIFT la AND 0x3FF"

definition PTX :: "u32 \<Rightarrow> u32" where
  "PTX la = drop_bit PTXSHIFT la AND 0x3FF"

definition PGOFF :: "u32 \<Rightarrow> u32" where
  "PGOFF la = la AND 0xFFF"

definition PGADDR :: "u32 \<Rightarrow> u32 \<Rightarrow> u32 \<Rightarrow> u32" where
  "PGADDR d t ofs = (push_bit PDXSHIFT d OR push_bit PTXSHIFT t) OR ofs"

definition PTE_P :: u32 where [jos_consts]: "PTE_P = 0x001"
definition PTE_W :: u32 where [jos_consts]: "PTE_W = 0x002"
definition PTE_U :: u32 where [jos_consts]: "PTE_U = 0x004"
definition PTE_PWT :: u32 where [jos_consts]: "PTE_PWT = 0x008"
definition PTE_PCD :: u32 where [jos_consts]: "PTE_PCD = 0x010"
definition PTE_AVAIL :: u32 where [jos_consts]: "PTE_AVAIL = 0xE00"
definition PTE_SYSCALL :: u32 where [jos_consts]: "PTE_SYSCALL = 0xE07"

definition PTE_ADDR :: "u32 \<Rightarrow> u32" where
  "PTE_ADDR pte = pte AND NOT 0xFFF"

definition FL_IF :: u32 where [jos_consts]: "FL_IF = 0x200"
definition FL_IOPL_MASK :: u32 where [jos_consts]: "FL_IOPL_MASK = 0x3000"

section \<open>The memory map (inc/memlayout.h)\<close>

definition KERNBASE :: u32 where [jos_consts]: "KERNBASE = 0xF0000000"
definition IOPHYSMEM :: u32 where [jos_consts]: "IOPHYSMEM = 0x0A0000"
definition EXTPHYSMEM :: u32 where [jos_consts]: "EXTPHYSMEM = 0x100000"
definition KSTACKTOP :: u32 where [jos_consts]: "KSTACKTOP = KERNBASE"
definition KSTKSIZE :: u32 where [jos_consts]: "KSTKSIZE = 8 * PGSIZE"
definition KSTKGAP :: u32 where [jos_consts]: "KSTKGAP = 8 * PGSIZE"
definition MMIOLIM :: u32 where [jos_consts]: "MMIOLIM = KSTACKTOP - PTSIZE"
definition MMIOBASE :: u32 where [jos_consts]: "MMIOBASE = MMIOLIM - PTSIZE"
definition ULIM :: u32 where [jos_consts]: "ULIM = MMIOBASE"
definition UVPT :: u32 where [jos_consts]: "UVPT = ULIM - PTSIZE"
definition UPAGES :: u32 where [jos_consts]: "UPAGES = UVPT - PTSIZE"
definition UENVS :: u32 where [jos_consts]: "UENVS = UPAGES - PTSIZE"
definition UTOP :: u32 where [jos_consts]: "UTOP = UENVS"
definition UXSTACKTOP :: u32 where [jos_consts]: "UXSTACKTOP = UTOP"
definition USTACKTOP :: u32 where [jos_consts]: "USTACKTOP = UTOP - 2 * PGSIZE"
definition UTEXT :: u32 where [jos_consts]: "UTEXT = 2 * PTSIZE"
definition UTEMP :: u32 where [jos_consts]: "UTEMP = PTSIZE"
definition PFTEMP :: u32 where [jos_consts]: "PFTEMP = UTEMP + PTSIZE - PGSIZE"
definition MPENTRY_PADDR :: u32 where [jos_consts]: "MPENTRY_PADDR = 0x7000"

lemma layout_values [simp]:
  "UTOP = 0xEEC00000" "ULIM = 0xEF800000" "UVPT = 0xEF400000" "UPAGES = 0xEF000000"
  "UENVS = 0xEEC00000" "MMIOBASE = 0xEF800000" "MMIOLIM = 0xEFC00000" "KSTACKTOP = 0xF0000000"
  "UXSTACKTOP = 0xEEC00000" "USTACKTOP = 0xEEBFE000" "UTEMP = 0x400000" "PFTEMP = 0x7FF000"
  by (simp_all add: jos_consts)

section \<open>Frames and addresses (kern/pmap.h)\<close>

text \<open>A \<^verbatim>\<open>struct PageInfo *\<close> is the index of its element in \<^verbatim>\<open>pages\<close>, the frame number.\<close>

definition PADDR :: "u32 \<Rightarrow> u32 option" where
  "PADDR kva = (if kva < KERNBASE then None else Some (kva - KERNBASE))"

definition KADDR :: "nat \<Rightarrow> u32 \<Rightarrow> u32 option" where
  "KADDR npgs pa = (if unat (PGNUM pa) \<ge> npgs then None else Some (pa + KERNBASE))"

definition page2pa :: "nat \<Rightarrow> u32" where
  "page2pa pp = push_bit PGSHIFT (word_of_nat pp)"

definition pa2page :: "nat \<Rightarrow> u32 \<Rightarrow> nat option" where
  "pa2page npgs pa = (if unat (PGNUM pa) \<ge> npgs then None else Some (unat (PGNUM pa)))"

definition page2kva :: "nat \<Rightarrow> nat \<Rightarrow> u32 option" where
  "page2kva npgs pp = KADDR npgs (page2pa pp)"

section \<open>Decomposition of addresses\<close>

lemma mask_numerals: "(0x3FF :: u32) = mask 10" "(0xFFF :: u32) = mask 12"
  by (simp_all add: mask_eq_exp_minus_1)

lemma and_3FF: "w AND 0x3FF = (take_bit 10 w :: u32)"
  by (simp only: mask_numerals take_bit_eq_mask)

lemma and_FFF: "w AND 0xFFF = (take_bit 12 w :: u32)"
  by (simp only: mask_numerals take_bit_eq_mask)

lemma and_not_FFF: "w AND NOT 0xFFF = (push_bit 12 (drop_bit 12 w) :: u32)"
  unfolding mask_numerals by (rule bit_word_eqI) (auto simp: bit_simps)

lemmas addr_arith = drop_bit_eq_div take_bit_eq_mod unat_mod_distrib unat_div_distrib

lemma unat_PGNUM: "unat (PGNUM va) = unat va div 2 ^ 12"
  by (simp add: PGNUM_def jos_consts addr_arith)

lemma unat_PTX: "unat (PTX va) = unat va div 2 ^ 12 mod 1024"
  by (simp add: PTX_def jos_consts and_3FF addr_arith)

lemma unat_PDX: "unat (PDX va) = unat va div 2 ^ 22"
proof -
  have "unat va < 2 ^ 32" using unsigned_less [of va] by simp
  then have "unat va div 2 ^ 22 < 1024" by (simp add: less_mult_imp_div_less)
  then show ?thesis
    by (simp add: PDX_def jos_consts and_3FF addr_arith)
qed

lemma PDX_bound [simp]: "unat (PDX va) < 1024"
  by (simp add: PDX_def unat_lt_1024)

lemma PTX_bound [simp]: "unat (PTX va) < 1024"
  by (simp add: PTX_def unat_lt_1024)

lemma PGADDR_split: "PGADDR (PDX va) (PTX va) (PGOFF va) = va"
proof (rule bit_word_eqI)
  fix n assume "n < LENGTH(32)"
  then have "n < 12 \<or> 12 \<le> n \<and> n < 22 \<or> 22 \<le> n \<and> n < 32" by auto
  then show "bit (PGADDR (PDX va) (PTX va) (PGOFF va)) n = bit va n"
    by (auto simp: PGADDR_def PDX_def PTX_def PGOFF_def jos_consts and_3FF and_FFF bit_simps)
qed

text \<open>An entry that maps frame \<open>pp\<close> names \<open>pp\<close> again, whatever its permission bits.\<close>

definition flags_only :: "u32 \<Rightarrow> bool" where
  "flags_only perm \<longleftrightarrow> drop_bit 12 perm = 0"

lemma unat_page2pa: "pp < 2 ^ 20 \<Longrightarrow> unat (page2pa pp) = pp * 4096"
  by (simp add: page2pa_def jos_consts push_bit_eq_mult unat_word_ariths unat_of_nat)

lemma drop_bit_page2pa: "pp < 2 ^ 20 \<Longrightarrow> drop_bit 12 (page2pa pp) = word_of_nat pp"
  by (simp add: word_unat_eq_iff drop_bit_eq_div unat_div_distrib unat_page2pa unat_of_nat)

lemma PGNUM_PTE_ADDR [simp]: "PGNUM (PTE_ADDR pte) = PGNUM pte"
  unfolding PGNUM_def PTE_ADDR_def and_not_FFF jos_consts
  by (rule bit_word_eqI) (auto simp add: bit_simps simp del: drop_bit_push_bit dest: bit_imp_le_length)

lemma frame_of_pte:
  assumes "pp < 2 ^ 20" and "flags_only perm"
  shows "unat (PGNUM ((page2pa pp OR perm) OR PTE_P)) = pp"
proof -
  have "drop_bit 12 ((page2pa pp OR perm) OR PTE_P) = (word_of_nat pp :: u32)"
    using assms by (simp add: flags_only_def drop_bit_or drop_bit_page2pa jos_consts)
  with assms(1) show ?thesis
    by (simp add: PGNUM_def jos_consts unat_of_nat)
qed

lemma pte_P: "((page2pa pp OR perm) OR PTE_P) AND PTE_P \<noteq> 0"
proof -
  have "bit (((page2pa pp OR perm) OR PTE_P) AND PTE_P) 0" by (simp add: jos_consts bit_simps)
  then show ?thesis by auto
qed

lemma pa2page_pte:
  assumes "pp < n" and "n \<le> 2 ^ 20" and "flags_only perm"
  shows "pa2page n (PTE_ADDR ((page2pa pp OR perm) OR PTE_P)) = Some pp"
  using assms frame_of_pte [of pp perm] by (simp add: pa2page_def)

lemma pte_flags:
  assumes "flags_only perm"
  shows "((page2pa pp OR perm) OR PTE_P) AND 0xFFF = perm OR PTE_P"
proof -
  have "perm = take_bit 12 perm"
    using assms bits_ident [of 12 perm] by (simp add: flags_only_def)
  moreover have "take_bit 12 (page2pa pp) = 0"
    by (simp add: page2pa_def jos_consts take_bit_push_bit)
  ultimately show ?thesis
    by (simp add: and_FFF jos_consts)
qed

text \<open>Rounding to a page.\<close>

lemma unat_ROUNDDOWN: "unat (ROUNDDOWN a PGSIZE) = unat a div 4096 * 4096"
proof -
  have "a mod 4096 \<le> a" by (simp add: word_le_nat_alt unat_mod_distrib)
  then have "unat (a - a mod 4096) = unat a - unat a mod 4096"
    by (simp only: unat_sub) (simp add: unat_mod_distrib)
  also have "\<dots> = unat a div 4096 * 4096" by (rule minus_mod_eq_div_mult)
  finally show ?thesis by (simp only: ROUNDDOWN_def jos_consts)
qed

lemma ROUNDUP_no_wrap:
  assumes "unat a + 4095 < 2 ^ 32"
  shows "unat (ROUNDUP a PGSIZE) = (unat a + 4095) div 4096 * 4096"
proof -
  have "unat (a + 4095) = unat a + 4095"
    using assms by (simp add: unat_word_ariths)
  then show ?thesis
    using unat_ROUNDDOWN [of "a + 4095"] by (simp add: ROUNDUP_def jos_consts add.commute)
qed

lemma PADDR_KADDR:
  assumes "npgs \<le> 65536" and "KADDR npgs pa = Some kva"
  shows "PADDR kva = Some pa"
proof -
  have "unat pa < 65536 * 4096"
    using assms by (auto simp: KADDR_def unat_PGNUM split: if_splits)
  then have "unat (pa + 0xF0000000) = unat pa + 0xF0000000"
    by (simp add: unat_word_ariths)
  with assms show ?thesis
    by (auto simp: KADDR_def PADDR_def jos_consts word_less_nat_alt split: if_splits)
qed

end
