(* ===== verification/Cstring.thy ===== *)
theory Cstring
  imports Prelude "HOL-Library.List_Lexorder"
begin

text \<open>
  The string and memory routines, \<^verbatim>\<open>lib/string.c\<close>, on a memory of bytes.  A pointer is an
  address; a routine that scans for a terminating zero may run for ever, and then its value is
  \<open>None\<close>.  The \<^verbatim>\<open>rep stos\<close> and \<^verbatim>\<open>rep movs\<close> instructions are the loops they stand for.
\<close>

type_synonym memory = "nat \<Rightarrow> u8"

section \<open>Strings\<close>

partial_function (option) strlen_loop :: "memory \<Rightarrow> nat \<Rightarrow> nat \<Rightarrow> nat option" where
  "strlen_loop m s n = (if m s = 0 then Some n else strlen_loop m (s + 1) (n + 1))"

definition strlen :: "memory \<Rightarrow> nat \<Rightarrow> nat option" where
  "strlen m s = strlen_loop m s 0"

primrec strnlen :: "memory \<Rightarrow> nat \<Rightarrow> nat \<Rightarrow> nat" where
  "strnlen m s 0 = 0"
| "strnlen m s (Suc sz) = (if m s \<noteq> 0 then 1 + strnlen m (s + 1) sz else 0)"

partial_function (option) strcpy :: "memory \<Rightarrow> nat \<Rightarrow> nat \<Rightarrow> memory option" where
  "strcpy m dst src =
     (let m1 = m(dst := m src) in if m src = 0 then Some m1 else strcpy m1 (dst + 1) (src + 1))"

definition strcat :: "memory \<Rightarrow> nat \<Rightarrow> nat \<Rightarrow> memory option" where
  "strcat m dst src = do { len \<leftarrow> strlen m dst; strcpy m (dst + len) src }"

primrec strncpy :: "memory \<Rightarrow> nat \<Rightarrow> nat \<Rightarrow> nat \<Rightarrow> memory" where
  "strncpy m dst src 0 = m"
| "strncpy m dst src (Suc n) =
     (let m1 = m(dst := m src) in strncpy m1 (dst + 1) (if m1 src \<noteq> 0 then src + 1 else src) n)"

text \<open>The loop of \<^verbatim>\<open>strlcpy\<close> with \<open>n\<close> cells left before the one for the zero.\<close>

primrec strlcpy_loop :: "nat \<Rightarrow> memory \<Rightarrow> nat \<Rightarrow> nat \<Rightarrow> nat \<times> memory" where
  "strlcpy_loop 0 m dst src = (dst, m(dst := 0))"
| "strlcpy_loop (Suc n) m dst src =
     (if m src \<noteq> 0 then strlcpy_loop n (m(dst := m src)) (dst + 1) (src + 1) else (dst, m(dst := 0)))"

definition strlcpy :: "memory \<Rightarrow> nat \<Rightarrow> nat \<Rightarrow> nat \<Rightarrow> nat \<times> memory" where
  "strlcpy m dst src sz =
     (if sz > 0 then let (d, m1) = strlcpy_loop (sz - 1) m dst src in (d - dst, m1) else (0, m))"

partial_function (option) strcmp :: "memory \<Rightarrow> nat \<Rightarrow> nat \<Rightarrow> int option" where
  "strcmp m p q =
     (if m p \<noteq> 0 \<and> m p = m q then strcmp m (p + 1) (q + 1) else Some (uint (m p) - uint (m q)))"

primrec strncmp :: "memory \<Rightarrow> nat \<Rightarrow> nat \<Rightarrow> nat \<Rightarrow> int" where
  "strncmp m p q 0 = 0"
| "strncmp m p q (Suc n) =
     (if m p \<noteq> 0 \<and> m p = m q then strncmp m (p + 1) (q + 1) n else uint (m p) - uint (m q))"

text \<open>\<open>Some (Some p)\<close> is a pointer, \<open>Some None\<close> the null pointer.\<close>

partial_function (option) strchr :: "memory \<Rightarrow> nat \<Rightarrow> u8 \<Rightarrow> nat option option" where
  "strchr m s c =
     (if m s = 0 then Some None else if m s = c then Some (Some s) else strchr m (s + 1) c)"

partial_function (option) strfind :: "memory \<Rightarrow> nat \<Rightarrow> u8 \<Rightarrow> nat option" where
  "strfind m s c = (if m s = 0 then Some s else if m s = c then Some s else strfind m (s + 1) c)"

section \<open>Blocks of memory\<close>

primrec stosb :: "nat \<Rightarrow> memory \<Rightarrow> nat \<Rightarrow> u8 \<Rightarrow> memory" where
  "stosb 0 m d b = m"
| "stosb (Suc n) m d b = stosb n (m(d := b)) (d + 1) b"

definition put32 :: "memory \<Rightarrow> nat \<Rightarrow> u32 \<Rightarrow> memory" where
  "put32 m d w = m(d := ucast w, d + 1 := ucast (drop_bit 8 w), d + 2 := ucast (drop_bit 16 w),
     d + 3 := ucast (drop_bit 24 w))"

primrec stosl :: "nat \<Rightarrow> memory \<Rightarrow> nat \<Rightarrow> u32 \<Rightarrow> memory" where
  "stosl 0 m d w = m"
| "stosl (Suc n) m d w = stosl n (put32 m d w) (d + 4) w"

definition memset :: "memory \<Rightarrow> nat \<Rightarrow> u32 \<Rightarrow> nat \<Rightarrow> memory" where
  "memset m v c n =
     (if n = 0 then m
      else if v mod 4 = 0 \<and> n mod 4 = 0
      then let c1 = c AND 0xFF; c2 = ((push_bit 24 c1 OR push_bit 16 c1) OR push_bit 8 c1) OR c1
           in stosl (n div 4) m v c2
      else stosb n m v (ucast c))"

primrec movsb :: "nat \<Rightarrow> memory \<Rightarrow> nat \<Rightarrow> nat \<Rightarrow> memory" where
  "movsb 0 m d s = m"
| "movsb (Suc n) m d s = movsb n (m(d := m s)) (d + 1) (s + 1)"

text \<open>With the direction flag set: \<open>d\<close> and \<open>s\<close> are one past the byte to move.\<close>

primrec movsb_down :: "nat \<Rightarrow> memory \<Rightarrow> nat \<Rightarrow> nat \<Rightarrow> memory" where
  "movsb_down 0 m d s = m"
| "movsb_down (Suc n) m d s = movsb_down n (m(d - 1 := m (s - 1))) (d - 1) (s - 1)"

definition mov32 :: "memory \<Rightarrow> nat \<Rightarrow> nat \<Rightarrow> memory" where
  "mov32 m d s = m(d := m s, d + 1 := m (s + 1), d + 2 := m (s + 2), d + 3 := m (s + 3))"

primrec movsl :: "nat \<Rightarrow> memory \<Rightarrow> nat \<Rightarrow> nat \<Rightarrow> memory" where
  "movsl 0 m d s = m"
| "movsl (Suc n) m d s = movsl n (mov32 m d s) (d + 4) (s + 4)"

primrec movsl_down :: "nat \<Rightarrow> memory \<Rightarrow> nat \<Rightarrow> nat \<Rightarrow> memory" where
  "movsl_down 0 m d s = m"
| "movsl_down (Suc n) m d s = movsl_down n (mov32 m (d - 4) (s - 4)) (d - 4) (s - 4)"

definition memmove :: "memory \<Rightarrow> nat \<Rightarrow> nat \<Rightarrow> nat \<Rightarrow> memory" where
  "memmove m dst src n =
     (let s = src; d = dst in
      if s < d \<and> s + n > d
      then let s = s + n; d = d + n in
           if s mod 4 = 0 \<and> d mod 4 = 0 \<and> n mod 4 = 0
           then movsl_down (n div 4) m d s
           else movsb_down n m d s
      else if s mod 4 = 0 \<and> d mod 4 = 0 \<and> n mod 4 = 0
           then movsl (n div 4) m d s
           else movsb n m d s)"

definition memcpy :: "memory \<Rightarrow> nat \<Rightarrow> nat \<Rightarrow> nat \<Rightarrow> memory" where
  "memcpy m dst src n = memmove m dst src n"

primrec memcmp :: "memory \<Rightarrow> nat \<Rightarrow> nat \<Rightarrow> nat \<Rightarrow> int" where
  "memcmp m s1 s2 0 = 0"
| "memcmp m s1 s2 (Suc n) =
     (if m s1 \<noteq> m s2 then uint (m s1) - uint (m s2) else memcmp m (s1 + 1) (s2 + 1) n)"

primrec memfind :: "memory \<Rightarrow> nat \<Rightarrow> u8 \<Rightarrow> nat \<Rightarrow> nat" where
  "memfind m s c 0 = s"
| "memfind m s c (Suc n) = (if m s = c then s else memfind m (s + 1) c n)"

section \<open>Numbers\<close>

text \<open>The value of a character as a digit, if it is one of the 36.\<close>

definition digit :: "u8 \<Rightarrow> nat option" where
  "digit c =
     (if 0x30 \<le> c \<and> c \<le> 0x39 then Some (unat (c - 0x30))
      else if 0x61 \<le> c \<and> c \<le> 0x7A then Some (unat (c - 0x61) + 10)
      else if 0x41 \<le> c \<and> c \<le> 0x5A then Some (unat (c - 0x41) + 10)
      else None)"

partial_function (option) strtol_digits :: "memory \<Rightarrow> nat \<Rightarrow> nat \<Rightarrow> u32 \<Rightarrow> (nat \<times> u32) option" where
  "strtol_digits m s base val =
     (case digit (m s) of
        None \<Rightarrow> Some (s, val)
      | Some dig \<Rightarrow> if base \<le> dig then Some (s, val)
                    else strtol_digits m (s + 1) base (val * word_of_nat base + word_of_nat dig))"

partial_function (option) skip_blanks :: "memory \<Rightarrow> nat \<Rightarrow> nat option" where
  "skip_blanks m s = (if m s = 0x20 \<or> m s = 0x09 then skip_blanks m (s + 1) else Some s)"

text \<open>The value (32 bits, overflow undetected) and where the scan stopped.\<close>

definition strtol :: "memory \<Rightarrow> nat \<Rightarrow> nat \<Rightarrow> (u32 \<times> nat) option" where
  "strtol m s base =
     do { s1 \<leftarrow> skip_blanks m s;
          let (s2, neg) = (if m s1 = 0x2B then (s1 + 1, False)
                           else if m s1 = 0x2D then (s1 + 1, True) else (s1, False));
          let (s3, base1) =
                (if (base = 0 \<or> base = 16) \<and> m s2 = 0x30 \<and> m (s2 + 1) = 0x78 then (s2 + 2, 16)
                 else if base = 0 \<and> m s2 = 0x30 then (s2 + 1, 8)
                 else if base = 0 then (s2, 10) else (s2, base));
          (s4, val) \<leftarrow> strtol_digits m s3 base1 0;
          Some (if neg then - val else val, s4) }"

section \<open>Moving memory\<close>

text \<open>What a block move means, whether or not the blocks overlap.\<close>

definition moved :: "memory \<Rightarrow> nat \<Rightarrow> nat \<Rightarrow> nat \<Rightarrow> memory" where
  "moved m dst src n = (\<lambda>a. if dst \<le> a \<and> a < dst + n then m (src + (a - dst)) else m a)"

lemma moved_1: "moved m d s 1 = m(d := m s)" and moved_0: "moved m d s 0 = m"
  by (auto simp: moved_def fun_eq_iff)

text \<open>A move of two adjacent pieces, upwards and downwards.\<close>

lemma moved_up:
  assumes "d \<le> s \<or> s + (k + n) \<le> d"
  shows "moved (moved m d s k) (d + k) (s + k) n = moved m d s (k + n)"
proof
  fix a
  show "moved (moved m d s k) (d + k) (s + k) n a = moved m d s (k + n) a"
  proof (cases "d \<le> a")
    case True
    then obtain j where "a = d + j" by (auto simp: le_iff_add)
    then show ?thesis using assms by (auto simp: moved_def)
  qed (auto simp: moved_def)
qed

lemma moved_down:
  assumes "s \<le> d"
  shows "moved (moved m (d + n) (s + n) k) d s n = moved m d s (n + k)"
proof
  fix a
  show "moved (moved m (d + n) (s + n) k) d s n a = moved m d s (n + k) a"
  proof (cases "d \<le> a")
    case True
    then obtain j where "a = d + j" by (auto simp: le_iff_add)
    then show ?thesis using assms by (auto simp: moved_def)
  qed (use assms in \<open>auto simp: moved_def\<close>)
qed

lemma mov32_moved: "mov32 m d s = moved m d s 4"
proof
  fix a
  have "d \<le> a \<and> a < d + 4 \<longleftrightarrow> a = d \<or> a = d + 1 \<or> a = d + 2 \<or> a = d + 3" by auto
  then show "mov32 m d s a = moved m d s 4 a" by (auto simp: mov32_def moved_def)
qed

lemma movsb_moved: "d \<le> s \<or> s + n \<le> d \<Longrightarrow> movsb n m d s = moved m d s n"
proof (induction n arbitrary: m d s)
  case (Suc n)
  have "movsb (Suc n) m d s = moved (moved m d s 1) (d + 1) (s + 1) n"
    unfolding movsb.simps moved_1 using Suc.IH [of "d + 1" "s + 1"] Suc.prems by auto
  then show ?case using moved_up [of d s 1 n m] Suc.prems by simp
qed (simp add: moved_0)

lemma movsl_moved: "d \<le> s \<or> s + 4 * n \<le> d \<Longrightarrow> movsl n m d s = moved m d s (4 * n)"
proof (induction n arbitrary: m d s)
  case (Suc n)
  have "movsl (Suc n) m d s = moved (moved m d s 4) (d + 4) (s + 4) (4 * n)"
    using Suc.IH [of "d + 4" "s + 4"] Suc.prems by (auto simp: mov32_moved)
  then show ?case using moved_up [of d s 4 "4 * n" m] Suc.prems by simp
qed (simp add: moved_0)

lemma movsb_down_moved: "s \<le> d \<Longrightarrow> movsb_down n m (d + n) (s + n) = moved m d s n"
proof (induction n arbitrary: m)
  case (Suc n)
  then show ?case using moved_down [of s d m n 1] moved_1 [of m "d + n" "s + n"] by simp
qed (simp add: moved_0)

lemma movsl_down_moved: "s \<le> d \<Longrightarrow> movsl_down n m (d + 4 * n) (s + 4 * n) = moved m d s (4 * n)"
proof (induction n arbitrary: m)
  case (Suc n)
  then show ?case using moved_down [of s d m "4 * n" 4]
    by (simp add: mov32_moved add.commute add.left_commute)
qed (simp add: moved_0)

lemma four_div: "(n :: nat) mod 4 = 0 \<Longrightarrow> 4 * (n div 4) = n"
  by auto

lemma memmove_moved: "memmove m dst src n = moved m dst src n"
proof (cases "src < dst \<and> src + n > dst")
  case True
  have "movsl_down (n div 4) m (dst + n) (src + n) = moved m dst src n" if "n mod 4 = 0"
    using movsl_down_moved [of src dst "n div 4" m] four_div [OF that] True by simp
  then show ?thesis using movsb_down_moved [of src dst n m] True by (simp add: memmove_def Let_def)
next
  case False
  have "movsl (n div 4) m dst src = moved m dst src n" if "n mod 4 = 0"
    using movsl_moved [of dst src "n div 4" m] four_div [OF that] False by auto
  then show ?thesis using movsb_moved [of dst src n m] False by (auto simp: memmove_def Let_def)
qed

section \<open>Filling memory\<close>

definition filled :: "memory \<Rightarrow> nat \<Rightarrow> u8 \<Rightarrow> nat \<Rightarrow> memory" where
  "filled m v b n = (\<lambda>a. if v \<le> a \<and> a < v + n then b else m a)"

lemma filled_0: "filled m v b 0 = m"
  by (auto simp: filled_def fun_eq_iff)

lemma filled_split: "filled (filled m v b k) (v + k) b n = filled m v b (k + n)"
  by (auto simp: filled_def fun_eq_iff)

lemma filled_1: "filled m v b 1 = m(v := b)"
  by (auto simp: filled_def fun_eq_iff)

lemma stosb_filled: "stosb n m v b = filled m v b n"
proof (induction n arbitrary: m v)
  case (Suc n)
  show ?case
    unfolding stosb.simps Suc.IH filled_1 [symmetric] filled_split by simp
qed (simp add: filled_0)

text \<open>The word \<^verbatim>\<open>memset\<close> stores holds the byte four times.\<close>

definition spread :: "u32 \<Rightarrow> u32" where
  "spread c = (let c1 = c AND 0xFF in ((push_bit 24 c1 OR push_bit 16 c1) OR push_bit 8 c1) OR c1)"

lemma and_FF: "(w :: u32) AND 0xFF = take_bit 8 w"
  using take_bit_eq_mask [of 8 w] by (simp add: mask_eq_exp_minus_1)

lemma spread_bytes:
  "ucast (spread c) = (ucast c :: u8)" "ucast (drop_bit 8 (spread c)) = (ucast c :: u8)"
  "ucast (drop_bit 16 (spread c)) = (ucast c :: u8)" "ucast (drop_bit 24 (spread c)) = (ucast c :: u8)"
  by (rule bit_word_eqI; auto simp: spread_def Let_def and_FF bit_simps)+

lemma put32_spread: "put32 m v (spread c) = filled m v (ucast c) 4"
proof
  fix a
  have "v \<le> a \<and> a < v + 4 \<longleftrightarrow> a = v \<or> a = v + 1 \<or> a = v + 2 \<or> a = v + 3" by auto
  then show "put32 m v (spread c) a = filled m v (ucast c) 4 a"
    by (auto simp: put32_def filled_def spread_bytes)
qed

lemma stosl_filled: "stosl n m v (spread c) = filled m v (ucast c) (4 * n)"
proof (induction n arbitrary: m v)
  case (Suc n)
  then show ?case using filled_split [of m v "ucast c" 4 "4 * n"] by (simp add: put32_spread)
qed (simp add: filled_0)

lemma memset_filled: "memset m v c n = filled m v (ucast c) n"
proof -
  have "stosl (n div 4) m v (spread c) = filled m v (ucast c) n" if "n mod 4 = 0"
    using stosl_filled [of "n div 4" m v c] four_div [OF that] by simp
  then show ?thesis
    by (auto simp: memset_def stosb_filled filled_0 spread_def Let_def)
qed

section \<open>Strings in memory\<close>

text \<open>The characters \<open>cs\<close>, none of them zero, and the terminating zero stand at \<open>p\<close>.\<close>

fun cstr :: "memory \<Rightarrow> nat \<Rightarrow> u8 list \<Rightarrow> bool" where
  "cstr m p [] \<longleftrightarrow> m p = 0"
| "cstr m p (c # cs) \<longleftrightarrow> m p = c \<and> c \<noteq> 0 \<and> cstr m (p + 1) cs"

lemma cstr_unique: "cstr m p cs \<Longrightarrow> cstr m p ds \<Longrightarrow> cs = ds"
proof (induction cs arbitrary: p ds)
  case Nil
  then show ?case by (cases ds) auto
next
  case (Cons c cs)
  then show ?case by (cases ds) auto
qed

lemma cstr_frame:
  "(\<And>i. i \<le> length cs \<Longrightarrow> m' (p + i) = m (p + i)) \<Longrightarrow> cstr m' p cs = cstr m p cs"
proof (induction cs arbitrary: p)
  case Nil
  then show ?case using Nil [of 0] by simp
next
  case (Cons c cs)
  have "m' p = m p" using Cons.prems [of 0] by simp
  moreover have "cstr m' (p + 1) cs = cstr m (p + 1) cs"
    by (rule Cons.IH) (use Cons.prems [of "Suc _"] in simp)
  ultimately show ?case by simp
qed

lemma strlen_loop_cstr: "cstr m p cs \<Longrightarrow> strlen_loop m p n = Some (n + length cs)"
  by (induction cs arbitrary: p n) (auto simp: strlen_loop.simps)

lemma strlen_cstr: "cstr m p cs \<Longrightarrow> strlen m p = Some (length cs)"
  by (simp add: strlen_def strlen_loop_cstr)

lemma strcpy_cstr:
  assumes "cstr m src cs" and "src + length cs < dst \<or> dst + length cs < src"
  shows "\<exists>m'. strcpy m dst src = Some m' \<and> cstr m' dst cs \<and>
     (\<forall>a. a < dst \<or> dst + length cs < a \<longrightarrow> m' a = m a)"
  using assms
proof (induction cs arbitrary: m dst src)
  case Nil
  then show ?case by (simp add: strcpy.simps)
next
  case (Cons c cs)
  define m1 where "m1 = m(dst := m src)"
  have "cstr m1 (src + 1) cs = cstr m (src + 1) cs"
    by (rule cstr_frame) (use Cons.prems(2) in \<open>auto simp: m1_def\<close>)
  then have "cstr m1 (src + 1) cs" using Cons.prems(1) by simp
  from Cons.IH [OF this, of "dst + 1"] Cons.prems(2) obtain m' where
    m': "strcpy m1 (dst + 1) (src + 1) = Some m'" "cstr m' (dst + 1) cs"
      "\<forall>a. a < dst + 1 \<or> dst + 1 + length cs < a \<longrightarrow> m' a = m1 a" by auto
  have "strcpy m dst src = Some m'"
    using Cons.prems(1) m'(1) by (subst strcpy.simps) (simp add: m1_def Let_def)
  moreover have "m' dst = c" using m'(3) Cons.prems(1) by (simp add: m1_def)
  moreover have "m' a = m a" if "a < dst \<or> dst + length (c # cs) < a" for a
    using m'(3) that by (auto simp: m1_def)
  ultimately show ?case using Cons.prems(1) m'(2) by auto
qed

lemma strlcpy_loop_cstr:
  assumes "cstr m src cs" and "src + length cs < dst \<or> dst + n < src"
  shows "strlcpy_loop n m dst src = (d, m') \<Longrightarrow>
     d = dst + min n (length cs) \<and> cstr m' dst (take n cs) \<and>
     (\<forall>a. a < dst \<or> dst + n < a \<longrightarrow> m' a = m a)"
  using assms
proof (induction n arbitrary: m dst src cs)
  case 0
  then show ?case by auto
next
  case (Suc n)
  show ?case
  proof (cases cs)
    case Nil
    then show ?thesis using Suc.prems by auto
  next
    case (Cons c ds)
    define m1 where "m1 = m(dst := m src)"
    have "cstr m1 (src + 1) ds = cstr m (src + 1) ds"
      by (rule cstr_frame) (use Suc.prems(3) Cons in \<open>auto simp: m1_def\<close>)
    then have c1: "cstr m1 (src + 1) ds" using Suc.prems(2) Cons by simp
    have l1: "strlcpy_loop n m1 (dst + 1) (src + 1) = (d, m')"
      using Suc.prems(1,2) Cons by (simp add: m1_def)
    have "src + 1 + length ds < dst + 1 \<or> dst + 1 + n < src + 1" using Suc.prems(3) Cons by auto
    from Suc.IH [OF l1 c1 this]
    have IH: "d = dst + 1 + min n (length ds)" "cstr m' (dst + 1) (take n ds)"
      "\<forall>a. a < dst + 1 \<or> dst + 1 + n < a \<longrightarrow> m' a = m1 a" by blast+
    have "m' dst = c" using IH(3) Suc.prems(2) Cons by (simp add: m1_def)
    moreover have "m' a = m a" if "a < dst \<or> dst + Suc n < a" for a using IH(3) that by (auto simp: m1_def)
    ultimately show ?thesis using IH Suc.prems(2) Cons by auto
  qed
qed

text \<open>\<^verbatim>\<open>strcmp\<close> decides the lexicographic order of the unsigned characters.\<close>

lemma uint_sgn: "uint (a :: u8) - uint b < 0 \<longleftrightarrow> a < b" "uint a - uint b = 0 \<longleftrightarrow> a = b"
  by (simp_all add: word_less_def word_uint_eq_iff)

lemma uint_pos: "(c :: u8) \<noteq> 0 \<Longrightarrow> 0 < uint c"
  using word_less_def [of 0 c] by (simp add: word_greater_zero_iff)

lemma strcmp_cstr:
  assumes "cstr m p cs" and "cstr m q ds"
  shows "\<exists>r. strcmp m p q = Some r \<and> (r = 0 \<longleftrightarrow> cs = ds) \<and> (r < 0 \<longleftrightarrow> cs < ds)"
  using assms
proof (induction cs arbitrary: p q ds)
  case Nil
  then show ?case using uint_pos by (cases ds) (fastforce simp: strcmp.simps)+
next
  case (Cons c cs)
  show ?case
  proof (cases ds)
    case Nil
    then have "strcmp m p q = Some (uint c)" using Cons.prems by (subst strcmp.simps) auto
    moreover have "0 < uint c" using Cons.prems by (simp add: uint_pos)
    ultimately show ?thesis using Nil by auto
  next
    case (Cons e es)
    show ?thesis
    proof (cases "c = e")
      case True
      then have "strcmp m p q = strcmp m (p + 1) (q + 1)"
        using Cons Cons.prems by (subst strcmp.simps) auto
      moreover have "\<exists>r. strcmp m (p + 1) (q + 1) = Some r \<and> (r = 0 \<longleftrightarrow> cs = es) \<and> (r < 0 \<longleftrightarrow> cs < es)"
        using Cons.IH [of "p + 1" "q + 1" es] Cons.prems \<open>ds = e # es\<close> by auto
      ultimately show ?thesis using True Cons by auto
    next
      case False
      then have "strcmp m p q = Some (uint c - uint e)"
        using Cons Cons.prems by (subst strcmp.simps) auto
      then show ?thesis using uint_sgn [of c e] False Cons by auto
    qed
  qed
qed

section \<open>Properties\<close>

text \<open>
  (C16) \<^verbatim>\<open>memmove\<close> copies the source block as it was before the call, whichever way the blocks
  overlap and whichever of its four copying loops it picks, and changes nothing else.
\<close>

theorem memmove_overlap_safe:
  "memmove m dst src n = (\<lambda>a. if dst \<le> a \<and> a < dst + n then m (src + (a - dst)) else m a)"
  using memmove_moved by (simp add: moved_def)

text \<open>
  (C17) \<^verbatim>\<open>memset\<close> stores the low byte of its argument in each of the \<open>n\<close> cells, also when it stores
  words, and changes nothing else.
\<close>

theorem memset_fills:
  "memset m v c n = (\<lambda>a. if v \<le> a \<and> a < v + n then ucast c else m a)"
  using memset_filled by (simp add: filled_def)

text \<open>
  (C18) On terminated strings \<^verbatim>\<open>strcmp\<close> returns, and the sign of its result is the lexicographic
  order of the strings as unsigned characters.
\<close>

theorem strcmp_lexicographic:
  assumes "cstr m p cs" and "cstr m q ds"
  shows "\<exists>r. strcmp m p q = Some r \<and> (r = 0 \<longleftrightarrow> cs = ds) \<and> (r < 0 \<longleftrightarrow> cs < ds)"
  using strcmp_cstr [OF assms] .

theorem strcmp_lexicographic_witness:
  "\<exists>r. strcmp (\<lambda>a. if a = 0 \<or> a = 1 \<or> a = 3 then 104 else 0) 0 3 = Some r \<and>
     (r = 0 \<longleftrightarrow> [104, 104] = [104 :: u8]) \<and> (r < 0 \<longleftrightarrow> [104, 104] < [104 :: u8])"
  by (rule strcmp_lexicographic) simp_all

text \<open>
  (C19) \<^verbatim>\<open>strlcpy\<close> never writes past the \<open>sz\<close> cells of the destination, always terminates what it
  wrote, and copies as much of the source as fits; the result is the number of characters
  copied.
\<close>

theorem strlcpy_bounded:
  assumes "cstr m src cs" and "src + length cs < dst \<or> dst + sz \<le> src" and "0 < sz"
  shows "\<exists>m'. strlcpy m dst src sz = (min (sz - 1) (length cs), m') \<and>
     cstr m' dst (take (sz - 1) cs) \<and> (\<forall>a. a < dst \<or> dst + sz \<le> a \<longrightarrow> m' a = m a)"
proof -
  obtain d m' where l: "strlcpy_loop (sz - 1) m dst src = (d, m')" by (cases "strlcpy_loop (sz - 1) m dst src")
  have "src + length cs < dst \<or> dst + (sz - 1) < src" using assms(2,3) by auto
  from strlcpy_loop_cstr [OF assms(1) this l] show ?thesis using assms(3) l by (auto simp: strlcpy_def)
qed

theorem strlcpy_bounded_witness:
  "\<exists>m'. strlcpy (\<lambda>a. if a = 0 \<or> a = 1 then 104 else 0) 8 0 2 = (min (2 - 1) (length [104, 104 :: u8]), m') \<and>
     cstr m' 8 (take (2 - 1) [104, 104]) \<and>
     (\<forall>a. a < 8 \<or> 8 + 2 \<le> a \<longrightarrow> m' a = (if a = 0 \<or> a = 1 then 104 else 0))"
  by (rule strlcpy_bounded) simp_all

end
