(* ===== verification/Ring.thy ===== *)
theory Ring
  imports Prelude
begin

text \<open>
  Circular buffers.  Several components keep a first-in first-out queue in an array of \<open>N\<close>
  cells with a read and a write index that wrap around; the cells from the read index up to
  the write index are the queue.
\<close>

definition ring_len :: "nat \<Rightarrow> nat \<Rightarrow> nat \<Rightarrow> nat" where
  "ring_len N r w = (w + N - r) mod N"

definition ring :: "nat \<Rightarrow> (nat \<Rightarrow> 'a) \<Rightarrow> nat \<Rightarrow> nat \<Rightarrow> 'a list" where
  "ring N f r w = map (\<lambda>k. f ((r + k) mod N)) [0..<ring_len N r w]"

lemma length_ring [simp]: "length (ring N f r w) = ring_len N r w"
  by (simp add: ring_def)

lemma ring_len_eq: "r < N \<Longrightarrow> w < N \<Longrightarrow> ring_len N r w = (if r \<le> w then w - r else w + N - r)"
  by (auto simp: ring_len_def mod_if)

lemma ring_empty [simp]: "r < N \<Longrightarrow> ring N f r r = []"
  by (simp add: ring_def ring_len_eq)

lemma ring_len_pos: "r < N \<Longrightarrow> w < N \<Longrightarrow> 0 < ring_len N r w \<longleftrightarrow> r \<noteq> w"
  by (auto simp: ring_len_eq)

lemma ring_tail_pos: "r < N \<Longrightarrow> w < N \<Longrightarrow> (r + ring_len N r w) mod N = w"
  by (auto simp: ring_len_eq)

lemma ring_len_less: "0 < N \<Longrightarrow> ring_len N r w < N"
  by (simp add: ring_len_def)

text \<open>The write index is not one of the cells of the queue.\<close>

lemma ring_tail_free:
  assumes "r < N" and "w < N" and "k < ring_len N r w"
  shows "(r + k) mod N \<noteq> w"
  using assms by (cases "r \<le> w"; cases "r + k < N") (auto simp: ring_len_eq mod_if)

lemma ring_len_push:
  assumes "r < N" and "w < N" and "ring_len N r w + 1 < N"
  shows "ring_len N r ((w + 1) mod N) = ring_len N r w + 1"
proof (cases "w + 1 < N")
  case True
  then show ?thesis using assms by (auto simp: ring_len_eq split: if_splits)
next
  case False
  then have w: "(w + 1) mod N = 0" using assms by (simp add: le_less_Suc_eq not_less_eq)
  show ?thesis unfolding w using assms False by (auto simp: ring_len_eq split: if_splits)
qed

lemma ring_push:
  assumes "r < N" and "w < N" and "ring_len N r w + 1 < N"
  shows "ring N (f(w := x)) r ((w + 1) mod N) = ring N f r w @ [x]"
  unfolding ring_def ring_len_push [OF assms]
  using ring_tail_free [OF assms(1,2)] ring_tail_pos [OF assms(1,2)] by simp

lemma ring_len_pop:
  assumes "r < N" and "w < N" and "r \<noteq> w"
  shows "ring_len N r w = ring_len N ((r + 1) mod N) w + 1"
proof (cases "r + 1 < N")
  case True
  then show ?thesis using assms by (auto simp: ring_len_eq)
next
  case False
  then have r: "(r + 1) mod N = 0" using assms by (simp add: le_less_Suc_eq not_less_eq)
  show ?thesis unfolding r using assms False by (auto simp: ring_len_eq)
qed

lemma ring_pop:
  assumes "r < N" and "w < N" and "r \<noteq> w"
  shows "ring N f r w = f r # ring N f ((r + 1) mod N) w"
proof -
  have e: "[0..<ring_len N r w] = 0 # map Suc [0..<ring_len N ((r + 1) mod N) w]"
    unfolding ring_len_pop [OF assms] by (simp add: upt_conv_Cons map_Suc_upt)
  show ?thesis
    unfolding ring_def e using assms(1) by (simp add: mod_simps ac_simps)
qed

text \<open>
  The interface: a state with a queue view, an operation that appends while there is room, one
  that takes the first element.  What goes in comes out, in order.
\<close>

locale fifo =
  fixes queue :: "'s \<Rightarrow> 'a list" and inv :: "'s \<Rightarrow> bool" and room :: "'s \<Rightarrow> bool"
    and put :: "'a \<Rightarrow> 's \<Rightarrow> 's" and get :: "'s \<Rightarrow> 'a option \<times> 's"
  assumes put_queue: "inv s \<Longrightarrow> room s \<Longrightarrow> inv (put x s) \<and> queue (put x s) = queue s @ [x]"
    and get_queue: "inv s \<Longrightarrow> inv (snd (get s)) \<and>
      (case queue s of [] \<Rightarrow> fst (get s) = None \<and> queue (snd (get s)) = []
       | y # ys \<Rightarrow> fst (get s) = Some y \<and> queue (snd (get s)) = ys)"
begin

lemma get_put_empty:
  assumes "inv s" and "room s" and "queue s = []"
  shows "fst (get (put x s)) = Some x \<and> queue (snd (get (put x s))) = []"
  using put_queue [OF assms(1,2), of x] get_queue [of "put x s"] assms(3) by simp

text \<open>Taking an element leaves the rest.\<close>

lemma get_view:
  assumes "inv s"
  shows "inv (snd (get s))" and "queue (snd (get s)) = tl (queue s)"
    and "fst (get s) = (case queue s of [] \<Rightarrow> None | y # _ \<Rightarrow> Some y)"
  using get_queue [OF assms] by (auto split: list.splits)

end

end
