(* ===== verification/Console.thy ===== *)
theory Console
  imports Ring "HOL-Library.Char_ord"
begin

text \<open>
  The console, \<^verbatim>\<open>kern/console.c\<close>: the input ring fed by the serial port and the keyboard, the
  decoding of scan codes, and the text screen.  What the devices will deliver is part of the
  state: \<open>serial_in\<close> are the bytes waiting at COM1, \<open>kbd_in\<close> pairs of status and data the
  keyboard controller will present.  The bytes sent to the serial and parallel port are
  logged, latest first.
\<close>

definition byte :: "char \<Rightarrow> u8" where "byte c = of_char c"

definition CONSBUFSIZE :: nat where [jos_consts]: "CONSBUFSIZE = 512"
definition CRT_COLS :: nat where [jos_consts]: "CRT_COLS = 80"
definition CRT_SIZE :: nat where [jos_consts]: "CRT_SIZE = 25 * 80"

definition KEY_HOME :: u8 where [jos_consts]: "KEY_HOME = 0xE0"
definition KEY_END :: u8 where [jos_consts]: "KEY_END = 0xE1"
definition KEY_UP :: u8 where [jos_consts]: "KEY_UP = 0xE2"
definition KEY_DN :: u8 where [jos_consts]: "KEY_DN = 0xE3"
definition KEY_LF :: u8 where [jos_consts]: "KEY_LF = 0xE4"
definition KEY_RT :: u8 where [jos_consts]: "KEY_RT = 0xE5"
definition KEY_PGUP :: u8 where [jos_consts]: "KEY_PGUP = 0xE6"
definition KEY_PGDN :: u8 where [jos_consts]: "KEY_PGDN = 0xE7"
definition KEY_INS :: u8 where [jos_consts]: "KEY_INS = 0xE8"
definition KEY_DEL :: u8 where [jos_consts]: "KEY_DEL = 0xE9"

definition KBS_DIB :: u8 where [jos_consts]: "KBS_DIB = 0x01"
definition KBS_TERR :: u8 where [jos_consts]: "KBS_TERR = 0x20"

definition SHIFT :: u32 where [jos_consts]: "SHIFT = 1"
definition CTL :: u32 where [jos_consts]: "CTL = 2"
definition ALT :: u32 where [jos_consts]: "ALT = 4"
definition CAPSLOCK :: u32 where [jos_consts]: "CAPSLOCK = 8"
definition NUMLOCK :: u32 where [jos_consts]: "NUMLOCK = 16"
definition SCROLLLOCK :: u32 where [jos_consts]: "SCROLLLOCK = 32"
definition E0ESC :: u32 where [jos_consts]: "E0ESC = 64"

record console =
  cbuf :: "nat \<Rightarrow> u8"
  rpos :: u32
  wpos :: u32
  serial_exists :: bool
  serial_in :: "u8 list"
  kbd_in :: "(u8 \<times> u8) list"
  shift :: u32
  crt_buf :: "nat \<Rightarrow> u16"
  crt_pos :: u16
  color_flag :: u16
  serial_out :: "u8 list"
  lpt_out :: "u8 list"
  rebooting :: bool

section \<open>Output\<close>

definition serial_putc :: "u32 \<Rightarrow> console \<Rightarrow> console" where
  "serial_putc c s = s\<lparr>serial_out := ucast c # serial_out s\<rparr>"

definition lpt_putc :: "u32 \<Rightarrow> console \<Rightarrow> console" where
  "lpt_putc c s = s\<lparr>lpt_out := ucast c # lpt_out s\<rparr>"

definition cga_scroll :: "console \<Rightarrow> console" where
  "cga_scroll s =
     (if CRT_SIZE \<le> unat (crt_pos s)
      then s\<lparr>crt_buf := (\<lambda>i. if i < CRT_SIZE - CRT_COLS then crt_buf s (i + CRT_COLS)
                              else if i < CRT_SIZE then 0x0720 else crt_buf s i),
              crt_pos := crt_pos s - word_of_nat CRT_COLS\<rparr>
      else s)"

text \<open>
  All of \<^verbatim>\<open>cga_putc\<close> for a character that is not a tab.  The argument is an \<^verbatim>\<open>int\<close>: a byte that was
  sign-extended on its way here overwrites the color with ones.
\<close>

definition cga_putc1 :: "u32 \<Rightarrow> console \<Rightarrow> console" where
  "cga_putc1 b s =
     (let c = b OR ucast (color_flag s); k = c AND 0xFF
      in cga_scroll
        (if k = 0x08
         then if 0 < crt_pos s
              then s\<lparr>crt_pos := crt_pos s - 1,
                     crt_buf := (crt_buf s)(unat (crt_pos s - 1) := ucast ((c AND NOT 0xFF) OR 0x20))\<rparr>
              else s
         else if k = 0x0A
         then let p = crt_pos s + word_of_nat CRT_COLS in s\<lparr>crt_pos := p - p mod word_of_nat CRT_COLS\<rparr>
         else if k = 0x0D
         then s\<lparr>crt_pos := crt_pos s - crt_pos s mod word_of_nat CRT_COLS\<rparr>
         else s\<lparr>crt_buf := (crt_buf s)(unat (crt_pos s) := ucast c), crt_pos := crt_pos s + 1\<rparr>))"

text \<open>A tab prints five spaces through \<^verbatim>\<open>cons_putc\<close>, that is on all three devices.\<close>

definition cga_putc :: "u32 \<Rightarrow> console \<Rightarrow> console" where
  "cga_putc b s =
     (if (b OR ucast (color_flag s)) AND 0xFF = 0x09
      then cga_scroll (((\<lambda>s. cga_putc1 0x20 (lpt_putc 0x20 (serial_putc 0x20 s))) ^^ 5) s)
      else cga_putc1 b s)"

definition cons_putc :: "u32 \<Rightarrow> console \<Rightarrow> console" where
  "cons_putc c s = cga_putc c (lpt_putc c (serial_putc c s))"

definition cputchar :: "u32 \<Rightarrow> console \<Rightarrow> console" where
  "cputchar c s = cons_putc c s"

definition set_color_info :: "u16 \<Rightarrow> console \<Rightarrow> console" where
  "set_color_info new_color s = s\<lparr>color_flag := new_color\<rparr>"

section \<open>Scan codes\<close>

definition shiftcode :: "u8 \<Rightarrow> u32" where
  "shiftcode d =
     (if d = 0x1D \<or> d = 0x9D then CTL else if d = 0x2A \<or> d = 0x36 then SHIFT
      else if d = 0x38 \<or> d = 0xB8 then ALT else 0)"

definition togglecode :: "u8 \<Rightarrow> u32" where
  "togglecode d =
     (if d = 0x3A then CAPSLOCK else if d = 0x45 then NUMLOCK else if d = 0x46 then SCROLLLOCK else 0)"

text \<open>The keys after an escape that the three maps agree on.\<close>

definition escaped_keys :: "(u8 \<times> u8) list" where
  "escaped_keys = [(0xC8, KEY_UP), (0xC9, KEY_PGUP), (0xCB, KEY_LF), (0xCD, KEY_RT), (0xCF, KEY_END),
     (0xD0, KEY_DN), (0xD1, KEY_PGDN), (0xD2, KEY_INS), (0xD3, KEY_DEL)]"

definition table :: "u8 list \<Rightarrow> (u8 \<times> u8) list \<Rightarrow> u8 \<Rightarrow> u8" where
  "table xs ps d =
     (case map_of ps d of Some c \<Rightarrow> c
      | None \<Rightarrow> if unat d < length xs then xs ! unat d else 0)"

definition normalmap :: "u8 \<Rightarrow> u8" where
  "normalmap = table
     ([0, 0x1B] @ map byte ''1234567890-='' @ [0x08, 0x09] @ map byte ''qwertyuiop[]'' @ [0x0A, 0] @
      map byte ''asdfghjkl;'' @ [0x27] @ map byte ''`'' @ [0, 0x5C] @ map byte ''zxcvbnm,./'' @ [0] @
      map byte ''*'' @ [0] @ map byte '' '' @ replicate 13 0 @ map byte ''789-456+1230.'' @ replicate 4 0)
     ([(0xC7, KEY_HOME), (0x9C, 0x0A), (0xB5, byte (CHR ''/''))] @ escaped_keys)"

definition shiftmap :: "u8 \<Rightarrow> u8" where
  "shiftmap = table
     ([0, 27] @ map byte ''!@#$%^&*()_+'' @ [0x08, 0x09] @ map byte ''QWERTYUIOP{}'' @ [0x0A, 0] @
      map byte ''ASDFGHJKL:'' @ [0x22] @ map byte ''~'' @ [0] @ map byte ''|ZXCVBNM<>?'' @ [0] @
      map byte ''*'' @ [0] @ map byte '' '' @ replicate 13 0 @ map byte ''789-456+1230.'' @ replicate 4 0)
     ([(0xC7, KEY_HOME), (0x9C, 0x0A), (0xB5, byte (CHR ''/''))] @ escaped_keys)"

definition ctl :: "char \<Rightarrow> u8" where "ctl c = byte c - byte (CHR ''@'')"

definition ctlmap :: "u8 \<Rightarrow> u8" where
  "ctlmap = table
     (replicate 16 0 @ map ctl ''QWERTYUIOP'' @ [0, 0, 0x0D, 0] @ map ctl ''ASDFGHJKL'' @
      [0, 0, 0, 0, 0x5C - byte (CHR ''@'')] @ map ctl ''ZXCVBNM'' @ [0, 0, ctl (CHR ''/''), 0, 0])
     ([(0x97, KEY_HOME), (0xB5, ctl (CHR ''/''))] @ escaped_keys)"

definition charcode :: "u32 \<Rightarrow> u8 \<Rightarrow> u8" where
  "charcode i = (if i = 0 then normalmap else if i = 1 then shiftmap else ctlmap)"

definition kbd_reboot :: "console \<Rightarrow> console" where
  "kbd_reboot s = (fold cputchar (map (ucast \<circ> byte) ''Rebooting!'' @ [0x0A]) s)\<lparr>rebooting := True\<rparr>"

text \<open>A key went down: the code of the character, after an escape, with the shift state.\<close>

definition kbd_key :: "u8 \<Rightarrow> console \<Rightarrow> int \<times> console" where
  "kbd_key data s =
     (let (data, sh) = (if shift s AND E0ESC \<noteq> 0 then (data OR 0x80, shift s AND NOT E0ESC)
                        else (data, shift s));
          sh = (sh OR shiftcode data) XOR togglecode data;
          c = charcode (sh AND (CTL OR SHIFT)) data;
          c = (if sh AND CAPSLOCK \<noteq> 0
               then if byte (CHR ''a'') \<le> c \<and> c \<le> byte (CHR ''z'') then c - 32
                    else if byte (CHR ''A'') \<le> c \<and> c \<le> byte (CHR ''Z'') then c + 32 else c
               else c);
          s = s\<lparr>shift := sh\<rparr>
      in (int (unat c), if NOT sh AND (CTL OR ALT) = 0 \<and> c = KEY_DEL then kbd_reboot s else s))"

text \<open>The result (-1: no data; 0: no character yet) and the new state.\<close>

definition kbd_proc_data :: "console \<Rightarrow> int \<times> console" where
  "kbd_proc_data s =
     (case kbd_in s of
        [] \<Rightarrow> (- 1, s)
      | (stat, data) # rest \<Rightarrow>
          if stat AND KBS_DIB = 0 then (- 1, s)
          else if stat AND KBS_TERR \<noteq> 0 then (- 1, s)
          else
            let s = s\<lparr>kbd_in := rest\<rparr> in
            if data = 0xE0 then (0, s\<lparr>shift := shift s OR E0ESC\<rparr>)
            else if data AND 0x80 \<noteq> 0
            then let data = (if shift s AND E0ESC \<noteq> 0 then data else data AND 0x7F)
                 in (0, s\<lparr>shift := shift s AND NOT (shiftcode data OR E0ESC)\<rparr>)
            else kbd_key data s)"

definition serial_proc_data :: "console \<Rightarrow> int \<times> console" where
  "serial_proc_data s =
     (case serial_in s of [] \<Rightarrow> (- 1, s) | b # rest \<Rightarrow> (int (unat b), s\<lparr>serial_in := rest\<rparr>))"

section \<open>The input ring\<close>

definition cons_store :: "u8 \<Rightarrow> console \<Rightarrow> console" where
  "cons_store c s =
     (let s1 = s\<lparr>cbuf := (cbuf s)(unat (wpos s) := c), wpos := wpos s + 1\<rparr>
      in if unat (wpos s1) = CONSBUFSIZE then s1\<lparr>wpos := 0\<rparr> else s1)"

text \<open>The loop of \<^verbatim>\<open>cons_intr\<close>, with a bound on the number of calls of \<open>proc\<close>.\<close>

fun cons_intr :: "nat \<Rightarrow> (console \<Rightarrow> int \<times> console) \<Rightarrow> console \<Rightarrow> console option" where
  "cons_intr 0 proc s = None"
| "cons_intr (Suc n) proc s =
     (let (c, s1) = proc s
      in if c = - 1 then Some s1
         else if c = 0 then cons_intr n proc s1
         else cons_intr n proc (cons_store (word_of_int c) s1))"

definition serial_intr :: "console \<Rightarrow> console option" where
  "serial_intr s =
     (if serial_exists s then cons_intr (length (serial_in s) + 1) serial_proc_data s else Some s)"

definition kbd_intr :: "console \<Rightarrow> console option" where
  "kbd_intr s = cons_intr (length (kbd_in s) + 1) kbd_proc_data s"

text \<open>Taking a character out of the ring, 0 when it is empty.\<close>

definition cons_take :: "console \<Rightarrow> u8 \<times> console" where
  "cons_take s =
     (if rpos s \<noteq> wpos s
      then let c = cbuf s (unat (rpos s)); s1 = s\<lparr>rpos := rpos s + 1\<rparr>
           in (c, if unat (rpos s1) = CONSBUFSIZE then s1\<lparr>rpos := 0\<rparr> else s1)
      else (0, s))"

definition cons_getc :: "console \<Rightarrow> (int \<times> console) option" where
  "cons_getc s =
     do { s1 \<leftarrow> serial_intr s;
          s2 \<leftarrow> kbd_intr s1;
          let (c, s3) = cons_take s2 in Some (int (unat c), s3) }"

definition demo_console :: console where
  "demo_console = \<lparr>cbuf = (\<lambda>_. 0), rpos = 0, wpos = 0, serial_exists = True, serial_in = [],
     kbd_in = [], shift = 0, crt_buf = (\<lambda>_. 0), crt_pos = 0, color_flag = 0x0700,
     serial_out = [], lpt_out = [], rebooting = False\<rparr>"

section \<open>Input comes out in the order it went in\<close>

definition cons_queue :: "console \<Rightarrow> u8 list" where
  "cons_queue s = ring CONSBUFSIZE (cbuf s) (unat (rpos s)) (unat (wpos s))"

definition cons_ok :: "console \<Rightarrow> bool" where
  "cons_ok s \<longleftrightarrow> unat (rpos s) < CONSBUFSIZE \<and> unat (wpos s) < CONSBUFSIZE"

definition cons_room :: "console \<Rightarrow> bool" where
  "cons_room s \<longleftrightarrow> length (cons_queue s) + 1 < CONSBUFSIZE"

definition cons_pop :: "console \<Rightarrow> u8 option \<times> console" where
  "cons_pop s = (if rpos s \<noteq> wpos s then Some (fst (cons_take s)) else None, snd (cons_take s))"

lemma unat_Suc_512:
  fixes p :: u32
  assumes "unat p < 512"
  shows "unat (p + 1) = unat p + 1"
  using assms by (simp add: unat_word_ariths)

lemma cons_store_pos:
  assumes "unat (wpos s) < CONSBUFSIZE"
  shows "unat (wpos (cons_store c s)) = (unat (wpos s) + 1) mod CONSBUFSIZE"
    and "cbuf (cons_store c s) = (cbuf s)(unat (wpos s) := c)" and "rpos (cons_store c s) = rpos s"
  using assms unat_Suc_512 [of "wpos s"] by (auto simp: cons_store_def Let_def CONSBUFSIZE_def)

lemma cons_take_pos:
  assumes "unat (rpos s) < CONSBUFSIZE" and "rpos s \<noteq> wpos s"
  shows "unat (rpos (snd (cons_take s))) = (unat (rpos s) + 1) mod CONSBUFSIZE"
    and "cbuf (snd (cons_take s)) = cbuf s" and "wpos (snd (cons_take s)) = wpos s"
    and "fst (cons_take s) = cbuf s (unat (rpos s))"
  using assms unat_Suc_512 [of "rpos s"] by (auto simp: cons_take_def Let_def CONSBUFSIZE_def)

interpretation cq: fifo cons_queue cons_ok cons_room cons_store cons_pop
proof
  fix s :: console and x :: u8
  assume ok: "cons_ok s" and "cons_room s"
  then show "cons_ok (cons_store x s) \<and> cons_queue (cons_store x s) = cons_queue s @ [x]"
    using cons_store_pos [of s x] ring_push [of "unat (rpos s)" CONSBUFSIZE "unat (wpos s)" "cbuf s" x]
    by (simp add: cons_ok_def cons_room_def cons_queue_def CONSBUFSIZE_def)
next
  fix s :: console
  assume ok: "cons_ok s"
  then have b: "unat (rpos s) < CONSBUFSIZE" "unat (wpos s) < CONSBUFSIZE" by (auto simp: cons_ok_def)
  show "cons_ok (snd (cons_pop s)) \<and>
      (case cons_queue s of [] \<Rightarrow> fst (cons_pop s) = None \<and> cons_queue (snd (cons_pop s)) = []
       | y # ys \<Rightarrow> fst (cons_pop s) = Some y \<and> cons_queue (snd (cons_pop s)) = ys)"
  proof (cases "rpos s = wpos s")
    case True
    then show ?thesis using b ok by (simp add: cons_pop_def cons_take_def cons_queue_def)
  next
    case False
    then have "unat (rpos s) \<noteq> unat (wpos s)" by (simp add: word_unat_eq_iff)
    from ring_pop [OF b this, of "cbuf s"] show ?thesis
      using cons_take_pos [OF b(1) False] b False
      by (simp add: cons_pop_def cons_queue_def cons_ok_def CONSBUFSIZE_def)
  qed
qed

text \<open>The state with another ring and another serial port.\<close>

definition ringed :: "(nat \<Rightarrow> u8) \<Rightarrow> u32 \<Rightarrow> u32 \<Rightarrow> bool \<Rightarrow> u8 list \<Rightarrow> console \<Rightarrow> console" where
  "ringed b r w x q s = s\<lparr>cbuf := b, rpos := r, wpos := w, serial_exists := x, serial_in := q\<rparr>"

lemma ringed_sel [simp]:
  "cbuf (ringed b r w x q s) = b" "rpos (ringed b r w x q s) = r" "wpos (ringed b r w x q s) = w"
  "serial_exists (ringed b r w x q s) = x" "serial_in (ringed b r w x q s) = q"
  "kbd_in (ringed b r w x q s) = kbd_in s" "shift (ringed b r w x q s) = shift s"
  by (simp_all add: ringed_def)

lemma ringed_self: "ringed (cbuf s) (rpos s) (wpos s) (serial_exists s) (serial_in s) s = s"
  by (simp add: ringed_def)

lemma ringed_again: "ringed b r w x q (s\<lparr>serial_in := y\<rparr>) = ringed b r w x q s"
  "ringed b r w x q (cons_store c s) = ringed b r w x q s"
  by (cases s; simp add: ringed_def cons_store_def Let_def)+

lemma cons_store_ringed: "\<exists>b w. cons_store c s = ringed b (rpos s) w (serial_exists s) (serial_in s) s"
  by (cases s) (auto simp: cons_store_def Let_def ringed_def)

text \<open>The interrupt loop ends: each call of the device routine consumes a pending byte.\<close>

lemma serial_loop:
  assumes "cons_ok s" and "length (cons_queue s) + length (serial_in s) < CONSBUFSIZE"
    and "length (serial_in s) < n"
  shows "\<exists>s'. cons_intr n serial_proc_data s = Some s' \<and> cons_ok s' \<and> serial_in s' = [] \<and>
     kbd_in s' = kbd_in s \<and> (\<exists>b w. s' = ringed b (rpos s) w (serial_exists s) [] s) \<and>
     cons_queue s' = cons_queue s @ filter (\<lambda>b. b \<noteq> 0) (serial_in s)"
  using assms
proof (induction n arbitrary: s)
  case (Suc n)
  show ?case
  proof (cases "serial_in s")
    case Nil
    then have "s = ringed (cbuf s) (rpos s) (wpos s) (serial_exists s) [] s" using ringed_self [of s] by simp
    then have "\<exists>b w. s = ringed b (rpos s) w (serial_exists s) [] s" by blast
    then show ?thesis using Nil Suc.prems by (simp add: serial_proc_data_def)
  next
    case (Cons b rest)
    let ?s1 = "s\<lparr>serial_in := rest\<rparr>"
    have q1: "cons_queue ?s1 = cons_queue s" "cons_ok ?s1" using Suc.prems(1) by (simp_all add: cons_queue_def cons_ok_def)
    have step: "serial_proc_data s = (int (unat b), ?s1)" using Cons by (simp add: serial_proc_data_def)
    show ?thesis
    proof (cases "b = 0")
      case True
      then show ?thesis using Suc.IH [of ?s1] Suc.prems step Cons q1 by (simp add: ringed_again)
    next
      case False
      let ?s2 = "cons_store b ?s1"
      have nz: "int (unat b) \<noteq> 0" "int (unat b) \<noteq> - 1" using False by (simp_all del: of_nat_unat add: unat_eq_zero)
      have "cons_room ?s1" using Suc.prems(2) Cons q1 by (simp add: cons_room_def)
      then have q2: "cons_ok ?s2" "cons_queue ?s2 = cons_queue s @ [b]" using cq.put_queue [OF q1(2)] q1 by simp_all
      have i2: "serial_in ?s2 = rest" "kbd_in ?s2 = kbd_in s" "rpos ?s2 = rpos s" "serial_exists ?s2 = serial_exists s"
        by (simp_all add: cons_store_def Let_def)
      have "cons_intr (Suc n) serial_proc_data s = cons_intr n serial_proc_data ?s2"
        using step nz by (simp del: of_nat_unat) simp
      then show ?thesis using Suc.IH [of ?s2] Suc.prems(2,3) Cons q2 i2 False by (simp add: ringed_again)
    qed
  qed
qed simp

lemma kbd_in_cga_scroll [simp]: "kbd_in (cga_scroll s) = kbd_in s"
  by (simp add: cga_scroll_def)

lemma kbd_in_cga_putc1 [simp]: "kbd_in (cga_putc1 c s) = kbd_in s"
  by (simp add: cga_putc1_def Let_def)

lemma kbd_in_cputchar [simp]: "kbd_in (cputchar c s) = kbd_in s"
  by (simp add: cputchar_def cons_putc_def cga_putc_def lpt_putc_def serial_putc_def numeral_eq_Suc)

lemma kbd_in_fold [simp]: "kbd_in (fold cputchar cs s) = kbd_in s"
  by (induction cs arbitrary: s) simp_all

lemma kbd_in_message: "kbd_in ((fold cputchar cs s)\<lparr>rebooting := b\<rparr>) = kbd_in s"
  by simp

lemma kbd_in_reboot [simp]: "kbd_in (kbd_reboot s) = kbd_in s"
  unfolding kbd_reboot_def by (rule kbd_in_message)

lemma kbd_in_key [simp]: "kbd_in (snd (kbd_key data s)) = kbd_in s"
  by (simp add: kbd_key_def Let_def split_def)

lemma kbd_step_consumes:
  "fst (kbd_proc_data s) \<noteq> - 1 \<Longrightarrow> length (kbd_in (snd (kbd_proc_data s))) < length (kbd_in s)"
  by (auto simp: kbd_proc_data_def Let_def split: list.splits if_splits prod.splits)

lemma kbd_loop_ends: "length (kbd_in s) < n \<Longrightarrow> \<exists>s'. cons_intr n kbd_proc_data s = Some s'"
proof (induction n arbitrary: s)
  case (Suc n)
  obtain c s1 where p: "kbd_proc_data s = (c, s1)" by (cases "kbd_proc_data s")
  show ?case
  proof (cases "c = - 1")
    case False
    then have "length (kbd_in s1) < n" using kbd_step_consumes [of s] p Suc.prems by simp
    moreover have "kbd_in (cons_store b s1) = kbd_in s1" for b by (simp add: cons_store_def Let_def)
    ultimately show ?thesis using Suc.IH p by simp
  qed (use p in simp)
qed simp

section \<open>What the devices have to say\<close>

text \<open>
  The characters a device routine decodes until it has no more data, the zeros left out, when
  it is called at most \<open>n\<close> times.
\<close>

primrec decoded :: "nat \<Rightarrow> (console \<Rightarrow> int \<times> console) \<Rightarrow> console \<Rightarrow> u8 list" where
  "decoded 0 proc s = []"
| "decoded (Suc n) proc s =
     (let (c, s1) = proc s
      in if c = - 1 then [] else if c = 0 then decoded n proc s1
         else word_of_int c # decoded n proc s1)"

definition kbd_chars :: "console \<Rightarrow> u8 list" where
  "kbd_chars s = decoded (length (kbd_in s) + 1) kbd_proc_data s"

definition serial_chars :: "console \<Rightarrow> u8 list" where
  "serial_chars s = (if serial_exists s then filter (\<lambda>b. b \<noteq> 0) (serial_in s) else [])"

text \<open>
  All input: what is in the ring, what is waiting at the serial port, what the keyboard controller
  holds.
\<close>

definition cons_input :: "console \<Rightarrow> u8 list" where
  "cons_input s = cons_queue s @ serial_chars s @ kbd_chars s"

definition cons_fits :: "console \<Rightarrow> bool" where
  "cons_fits s \<longleftrightarrow> length (cons_queue s) + length (serial_in s) + length (kbd_in s) < CONSBUFSIZE"

text \<open>Decoding the keyboard does not depend on the ring and the serial port, and does not touch them.\<close>

lemma ringed_scroll: "cga_scroll (ringed b r w x q s) = ringed b r w x q (cga_scroll s)"
  by (cases s) (simp add: cga_scroll_def ringed_def cong: if_cong)

lemma ringed_putc1: "cga_putc1 c (ringed b r w x q s) = ringed b r w x q (cga_putc1 c s)"
  unfolding cga_putc1_def Let_def ringed_scroll [symmetric]
  by (rule arg_cong [of _ _ cga_scroll]) (cases s, simp add: ringed_def)

lemma ringed_cputchar: "cputchar c (ringed b r w x q s) = ringed b r w x q (cputchar c s)"
proof -
  have dev: "lpt_putc c (serial_putc c (ringed b r w x q s)) = ringed b r w x q (lpt_putc c (serial_putc c s))" for c s
    by (simp add: lpt_putc_def serial_putc_def ringed_def)
  have "((\<lambda>s. cga_putc1 c (lpt_putc c (serial_putc c s))) ^^ n) (ringed b r w x q s) =
      ringed b r w x q (((\<lambda>s. cga_putc1 c (lpt_putc c (serial_putc c s))) ^^ n) s)" for c n s
    by (induction n) (simp_all add: dev ringed_putc1)
  moreover have "color_flag (ringed b r w x q s) = color_flag s" for s by (simp add: ringed_def)
  ultimately show ?thesis by (simp add: cputchar_def cons_putc_def cga_putc_def dev ringed_putc1 ringed_scroll)
qed

lemma ringed_fold: "fold cputchar cs (ringed b r w x q s) = ringed b r w x q (fold cputchar cs s)"
  by (induction cs arbitrary: s) (simp_all add: ringed_cputchar)

lemma ringed_reboot: "kbd_reboot (ringed b r w x q s) = ringed b r w x q (kbd_reboot s)"
proof -
  have "(ringed b r w x q s)\<lparr>rebooting := y\<rparr> = ringed b r w x q (s\<lparr>rebooting := y\<rparr>)" for s y by (simp add: ringed_def)
  then show ?thesis unfolding kbd_reboot_def ringed_fold .
qed

lemma ringed_key: "kbd_key d (ringed b r w x q s) = (fst (kbd_key d s), ringed b r w x q (snd (kbd_key d s)))"
proof -
  have "shift (ringed b r w x q s) = shift s" "(ringed b r w x q s)\<lparr>shift := y\<rparr> = ringed b r w x q (s\<lparr>shift := y\<rparr>)" for y
    by (simp_all add: ringed_def)
  then show ?thesis
    unfolding kbd_key_def Let_def split_def by (simp only: fst_conv snd_conv if_distrib [of "ringed b r w x q"] ringed_reboot)
qed

lemma ringed_kbd: "kbd_proc_data (ringed b r w x q s) =
    (fst (kbd_proc_data s), ringed b r w x q (snd (kbd_proc_data s)))"
proof -
  have "kbd_in (ringed b r w x q s) = kbd_in s" "shift (ringed b r w x q s) = shift s"
    "(ringed b r w x q s)\<lparr>kbd_in := z\<rparr> = ringed b r w x q (s\<lparr>kbd_in := z\<rparr>)"
    "(ringed b r w x q s)\<lparr>shift := y\<rparr> = ringed b r w x q (s\<lparr>shift := y\<rparr>)" for s y z
    by (simp_all add: ringed_def)
  then show ?thesis by (simp add: kbd_proc_data_def Let_def ringed_key split: list.split prod.split)
qed

text \<open>So the state after a step is the ring of before with the rest of what the step did.\<close>

lemma kbd_keeps_ring:
  "cbuf (snd (kbd_proc_data s)) = cbuf s" "rpos (snd (kbd_proc_data s)) = rpos s" "wpos (snd (kbd_proc_data s)) = wpos s"
  "serial_exists (snd (kbd_proc_data s)) = serial_exists s" "serial_in (snd (kbd_proc_data s)) = serial_in s"
proof -
  let ?t = "snd (kbd_proc_data s)"
  have e: "ringed (cbuf s) (rpos s) (wpos s) (serial_exists s) (serial_in s) ?t = ?t"
    using arg_cong [OF ringed_kbd [of "cbuf s" "rpos s" "wpos s" "serial_exists s" "serial_in s" s], of snd]
    by (simp only: ringed_self snd_conv)
  show "cbuf ?t = cbuf s" "rpos ?t = rpos s" "wpos ?t = wpos s" "serial_exists ?t = serial_exists s" "serial_in ?t = serial_in s"
    using arg_cong [OF e, of cbuf] arg_cong [OF e, of rpos] arg_cong [OF e, of wpos] arg_cong [OF e, of serial_exists]
      arg_cong [OF e, of serial_in] by (simp_all only: ringed_sel)
qed

text \<open>The loop for the keyboard: it stores exactly the characters decoded, then there are no more.\<close>

lemma kbd_decoded_ringed: "decoded n kbd_proc_data (ringed b r w x q s) = decoded n kbd_proc_data s"
  by (induction n arbitrary: s) (simp_all add: ringed_kbd split_def Let_def)

lemma kbd_chars_ringed: "kbd_chars (ringed b r w x q s) = kbd_chars s"
  by (simp add: kbd_chars_def kbd_decoded_ringed del: decoded.simps)

lemma kbd_decoded_store: "decoded n kbd_proc_data (cons_store c s) = decoded n kbd_proc_data s"
  using cons_store_ringed [of c s] kbd_decoded_ringed by auto

lemma kbd_key_result: "fst (kbd_key d s) \<ge> 0"
  unfolding kbd_key_def Let_def split_def fst_conv by (rule of_nat_0_le_iff)

lemma kbd_end: "fst (kbd_proc_data s) = - 1 \<Longrightarrow> snd (kbd_proc_data s) = s"
proof -
  have "fst (kbd_key d u) \<noteq> - 1" for d u using kbd_key_result [of d u] by simp
  then show "fst (kbd_proc_data s) = - 1 \<Longrightarrow> snd (kbd_proc_data s) = s"
    by (auto simp: kbd_proc_data_def Let_def split: list.splits if_splits)
qed

lemma cons_store_other:
  "serial_in (cons_store c s) = serial_in s" "kbd_in (cons_store c s) = kbd_in s"
  "serial_exists (cons_store c s) = serial_exists s"
  by (simp_all add: cons_store_def Let_def)

lemma cons_view_kbd: "cons_ok (snd (kbd_proc_data s)) = cons_ok s" "cons_queue (snd (kbd_proc_data s)) = cons_queue s"
  by (simp_all add: cons_ok_def cons_queue_def kbd_keeps_ring)

lemma kbd_loop:
  assumes "cons_ok s" and "length (cons_queue s) + length (kbd_in s) < CONSBUFSIZE" and "length (kbd_in s) < n"
  shows "\<exists>s'. cons_intr n kbd_proc_data s = Some s' \<and> cons_ok s' \<and> fst (kbd_proc_data s') = - 1 \<and>
     length (kbd_in s') \<le> length (kbd_in s) \<and> serial_in s' = serial_in s \<and> serial_exists s' = serial_exists s \<and>
     cons_queue s' = cons_queue s @ decoded n kbd_proc_data s \<and>
     length (decoded n kbd_proc_data s) + length (kbd_in s') \<le> length (kbd_in s)"
  using assms
proof (induction n arbitrary: s)
  case (Suc n)
  obtain c s1 where p: "kbd_proc_data s = (c, s1)" by (cases "kbd_proc_data s")
  have v: "cons_ok s1" "cons_queue s1 = cons_queue s" "serial_in s1 = serial_in s" "serial_exists s1 = serial_exists s"
    using cons_view_kbd [of s] kbd_keeps_ring [of s] Suc.prems(1) p by simp_all
  show ?case
  proof (cases "c = - 1")
    case True
    then have "s1 = s" using kbd_end [of s] p by simp
    then show ?thesis using True p Suc.prems(1) by simp
  next
    case False
    then have l: "length (kbd_in s1) < length (kbd_in s)" using kbd_step_consumes [of s] p by simp
    show ?thesis
    proof (cases "c = 0")
      case True
      then show ?thesis using Suc.IH [of s1] Suc.prems v l p by fastforce
    next
      case nz: False
      let ?s2 = "cons_store (word_of_int c) s1"
      have "cons_room s1" using Suc.prems(2) v l by (simp add: cons_room_def)
      then have q: "cons_ok ?s2" "cons_queue ?s2 = cons_queue s @ [word_of_int c]"
        using cq.put_queue [OF v(1)] v(2) by simp_all
      have "\<exists>s'. cons_intr n kbd_proc_data ?s2 = Some s' \<and> cons_ok s' \<and> fst (kbd_proc_data s') = - 1 \<and>
          length (kbd_in s') \<le> length (kbd_in s1) \<and> serial_in s' = serial_in s \<and> serial_exists s' = serial_exists s \<and>
          cons_queue s' = cons_queue ?s2 @ decoded n kbd_proc_data s1 \<and>
          length (decoded n kbd_proc_data s1) + length (kbd_in s') \<le> length (kbd_in s1)"
        using Suc.IH [of ?s2] q l Suc.prems(2,3) v(3,4) by (simp add: cons_store_other kbd_decoded_store)
      then show ?thesis using False nz p q l by fastforce
    qed
  qed
qed simp

text \<open>
  So \<^verbatim>\<open>cons_getc\<close> takes the first character of all the input there is, and returns 0 when there is
  none.
\<close>

definition cons_inv :: "console \<Rightarrow> bool" where
  "cons_inv s \<longleftrightarrow> cons_ok s \<and> cons_fits s"

lemma serial_part:
  assumes "cons_inv s"
  shows "\<exists>s1. serial_intr s = Some s1 \<and> cons_inv s1 \<and> serial_chars s1 = [] \<and> kbd_chars s1 = kbd_chars s \<and>
     cons_queue s1 = cons_queue s @ serial_chars s"
proof (cases "serial_exists s")
  case True
  have l: "length (cons_queue s) + length (serial_in s) < CONSBUFSIZE" "length (serial_in s) < length (serial_in s) + 1"
    using assms by (simp_all add: cons_inv_def cons_fits_def)
  obtain s1 where s1: "cons_intr (length (serial_in s) + 1) serial_proc_data s = Some s1" "cons_ok s1" "serial_in s1 = []"
      "kbd_in s1 = kbd_in s" "cons_queue s1 = cons_queue s @ filter (\<lambda>b. b \<noteq> 0) (serial_in s)"
      "\<exists>b w. s1 = ringed b (rpos s) w (serial_exists s) [] s"
    using serial_loop [OF _ l] assms by (auto simp: cons_inv_def)
  have "length (filter (\<lambda>b. b \<noteq> 0) (serial_in s)) \<le> length (serial_in s)" by (rule length_filter_le)
  then have "cons_fits s1" unfolding cons_fits_def s1(3,4,5) length_append
    using assms by (simp add: cons_inv_def cons_fits_def del: length_filter_le)
  moreover have "kbd_chars s1 = kbd_chars s" using s1(6) kbd_chars_ringed by auto
  ultimately show ?thesis using s1 True by (simp add: serial_intr_def serial_chars_def cons_inv_def)
qed (use assms in \<open>simp add: serial_intr_def serial_chars_def\<close>)

lemma kbd_part:
  assumes "cons_inv s"
  shows "\<exists>s1. kbd_intr s = Some s1 \<and> cons_inv s1 \<and> serial_chars s1 = serial_chars s \<and> kbd_chars s1 = [] \<and>
     cons_queue s1 = cons_queue s @ kbd_chars s"
proof -
  have l: "length (cons_queue s) + length (kbd_in s) < CONSBUFSIZE" "length (kbd_in s) < length (kbd_in s) + 1"
    using assms by (simp_all add: cons_inv_def cons_fits_def)
  obtain s1 where s1: "kbd_intr s = Some s1" "cons_ok s1" "fst (kbd_proc_data s1) = - 1" "serial_in s1 = serial_in s"
      "serial_exists s1 = serial_exists s" "cons_queue s1 = cons_queue s @ kbd_chars s"
      "length (kbd_chars s) + length (kbd_in s1) \<le> length (kbd_in s)"
    using kbd_loop [OF _ l] assms by (auto simp: cons_inv_def kbd_intr_def kbd_chars_def)
  have "kbd_chars s1 = []" using s1(3) by (simp add: kbd_chars_def split_def)
  moreover have "cons_inv s1" using assms s1 by (simp add: cons_inv_def cons_fits_def)
  ultimately show ?thesis using s1 by (simp add: serial_chars_def)
qed

lemma cons_getc_input:
  assumes "cons_inv s"
  shows "\<exists>s'. cons_getc s = Some (case cons_input s of [] \<Rightarrow> 0 | b # _ \<Rightarrow> int (unat b), s') \<and>
     cons_inv s' \<and> cons_input s' = tl (cons_input s)"
proof -
  obtain s1 where s1: "serial_intr s = Some s1" "cons_inv s1" "serial_chars s1 = []" "kbd_chars s1 = kbd_chars s"
      "cons_queue s1 = cons_queue s @ serial_chars s" using serial_part [OF assms] by blast
  obtain s2 where s2: "kbd_intr s1 = Some s2" "cons_inv s2" "serial_chars s2 = []" "kbd_chars s2 = []"
      "cons_queue s2 = cons_input s" using kbd_part [OF s1(2)] s1 by (auto simp: cons_input_def)
  define t where "t = snd (cons_take s2)"
  have take: "t = ringed (cbuf s2) (rpos t) (wpos s2) (serial_exists s2) (serial_in s2) s2"
    by (cases s2) (auto simp: t_def cons_take_def Let_def ringed_def)
  have rest: "kbd_chars t = kbd_chars s2" "kbd_in t = kbd_in s2" "serial_in t = serial_in s2" "serial_exists t = serial_exists s2"
    using arg_cong [OF take, of kbd_chars] arg_cong [OF take, of kbd_in] arg_cong [OF take, of serial_in]
      arg_cong [OF take, of serial_exists] by (simp_all only: kbd_chars_ringed ringed_sel)
  then have "serial_chars t = serial_chars s2" by (simp add: serial_chars_def)
  note rest = rest this
  have q: "cons_ok t" "cons_queue t = tl (cons_queue s2)"
    "int (unat (fst (cons_take s2))) = (case cons_queue s2 of [] \<Rightarrow> 0 | b # _ \<Rightarrow> int (unat b))"
    using cq.get_view [of s2] s2(2) by (auto simp: cons_inv_def cons_pop_def t_def cons_take_def split: list.splits if_splits)
  have "length (cons_queue t) \<le> length (cons_queue s2)" unfolding q(2) by simp
  then have "cons_inv t" using q(1) s2(2) rest by (simp add: cons_inv_def cons_fits_def)
  moreover have "cons_input t = tl (cons_input s)" using rest s2 q(2) by (simp add: cons_input_def)
  moreover have "cons_getc s = Some (case cons_input s of [] \<Rightarrow> 0 | b # _ \<Rightarrow> int (unat b), t)"
    using s1(1) s2(1,5) q(3) by (simp add: cons_getc_def t_def split_def)
  ultimately show ?thesis by blast
qed

text \<open>\<open>n\<close> calls of \<^verbatim>\<open>cons_getc\<close> in a row.\<close>

primrec cons_getcs :: "nat \<Rightarrow> console \<Rightarrow> (int list \<times> console) option" where
  "cons_getcs 0 s = Some ([], s)"
| "cons_getcs (Suc n) s = do { (c, s1) \<leftarrow> cons_getc s; (cs, s2) \<leftarrow> cons_getcs n s1; Some (c # cs, s2) }"

lemma cons_getcs_input:
  "cons_inv s \<Longrightarrow> \<exists>s'. cons_getcs n s =
       Some (map (\<lambda>b. int (unat b)) (take n (cons_input s)) @ replicate (n - length (cons_input s)) 0, s') \<and>
     cons_inv s' \<and> cons_input s' = drop n (cons_input s)"
proof (induction n arbitrary: s)
  case (Suc n)
  from cons_getc_input [OF Suc.prems] obtain s1 where
    s1: "cons_getc s = Some (case cons_input s of [] \<Rightarrow> 0 | b # _ \<Rightarrow> int (unat b), s1)"
      "cons_inv s1" "cons_input s1 = tl (cons_input s)" by blast
  from Suc.IH [OF s1(2)] s1 show ?case by (cases "cons_input s") auto
qed simp

section \<open>The cursor stays on the screen\<close>

lemma unat_u16_arith:
  fixes p :: u16
  assumes "unat p < 2000"
  shows "unat (p + 1) = unat p + 1" and "unat (p + 80) = unat p + 80"
  using assms by (simp_all add: unat_word_ariths)

lemma cga_scroll_pos:
  assumes "unat (crt_pos s) < CRT_SIZE + CRT_COLS"
  shows "unat (crt_pos (cga_scroll s)) < CRT_SIZE"
    and "CRT_SIZE \<le> i \<Longrightarrow> crt_buf (cga_scroll s) i = crt_buf s i"
proof -
  show "unat (crt_pos (cga_scroll s)) < CRT_SIZE"
  proof (cases "CRT_SIZE \<le> unat (crt_pos s)")
    case True
    then have "80 \<le> crt_pos s" by (simp add: word_le_nat_alt CRT_SIZE_def)
    then have "unat (crt_pos s - 80) = unat (crt_pos s) - 80" by (simp add: unat_sub)
    then show ?thesis using True assms by (simp add: cga_scroll_def CRT_SIZE_def CRT_COLS_def)
  qed (simp add: cga_scroll_def)
  show "CRT_SIZE \<le> i \<Longrightarrow> crt_buf (cga_scroll s) i = crt_buf s i"
    by (simp add: cga_scroll_def CRT_SIZE_def CRT_COLS_def)
qed

lemma unat_minus_mod: "unat (p - p mod 80) = unat p - unat p mod 80" for p :: u16
proof -
  have "p mod 80 \<le> p" by (simp add: word_le_nat_alt unat_mod_distrib)
  then show ?thesis by (simp add: unat_sub unat_mod_distrib)
qed

lemma cga_putc1_pos:
  assumes "unat (crt_pos s) < CRT_SIZE"
  shows "unat (crt_pos (cga_putc1 b s)) < CRT_SIZE"
    and "CRT_SIZE \<le> i \<Longrightarrow> crt_buf (cga_putc1 b s) i = crt_buf s i"
proof -
  have p: "unat (crt_pos s) < 2000" using assms by (simp add: CRT_SIZE_def)
  note ar = unat_u16_arith [OF p]
  have dec: "0 < crt_pos s \<Longrightarrow> unat (crt_pos s - 1) = unat (crt_pos s) - 1"
    by (intro unat_minus_one) auto
  define t where "t = (let c = b OR ucast (color_flag s); k = c AND 0xFF in
        if k = 0x08
         then if 0 < crt_pos s
              then s\<lparr>crt_pos := crt_pos s - 1,
                     crt_buf := (crt_buf s)(unat (crt_pos s - 1) := ucast ((c AND NOT 0xFF) OR 0x20))\<rparr>
              else s
         else if k = 0x0A
         then let p = crt_pos s + word_of_nat CRT_COLS in s\<lparr>crt_pos := p - p mod word_of_nat CRT_COLS\<rparr>
         else if k = 0x0D
         then s\<lparr>crt_pos := crt_pos s - crt_pos s mod word_of_nat CRT_COLS\<rparr>
         else s\<lparr>crt_buf := (crt_buf s)(unat (crt_pos s) := ucast c), crt_pos := crt_pos s + 1\<rparr>)"
  have e: "cga_putc1 b s = cga_scroll t" by (simp add: cga_putc1_def t_def Let_def)
  have t1: "unat (crt_pos t) < CRT_SIZE + CRT_COLS"
    using p ar dec unat_minus_mod [of "crt_pos s"] unat_minus_mod [of "crt_pos s + 80"]
    by (auto simp: t_def Let_def CRT_SIZE_def CRT_COLS_def)
  have t2: "CRT_SIZE \<le> i \<Longrightarrow> crt_buf t i = crt_buf s i"
    using p dec by (auto simp: t_def Let_def CRT_SIZE_def)
  show "unat (crt_pos (cga_putc1 b s)) < CRT_SIZE" unfolding e by (rule cga_scroll_pos(1) [OF t1])
  show "CRT_SIZE \<le> i \<Longrightarrow> crt_buf (cga_putc1 b s) i = crt_buf s i"
    unfolding e using cga_scroll_pos(2) [OF t1] t2 by simp
qed

definition on_screen :: "(nat \<Rightarrow> u16) \<Rightarrow> console \<Rightarrow> bool" where
  "on_screen m s \<longleftrightarrow> unat (crt_pos s) < CRT_SIZE \<and> (\<forall>i \<ge> CRT_SIZE. crt_buf s i = m i)"

lemma on_screen_putc1: "on_screen m s \<Longrightarrow> on_screen m (cga_putc1 b s)"
  using cga_putc1_pos [of s] by (simp add: on_screen_def)

lemma on_screen_devices: "on_screen m (lpt_putc b (serial_putc b s)) = on_screen m s"
  by (simp add: on_screen_def lpt_putc_def serial_putc_def)

lemma on_screen_scroll: "on_screen m s \<Longrightarrow> on_screen m (cga_scroll s)"
  using cga_scroll_pos [of s] by (simp add: on_screen_def)

lemma on_screen_spaces:
  "on_screen m s \<Longrightarrow> on_screen m (((\<lambda>s. cga_putc1 0x20 (lpt_putc 0x20 (serial_putc 0x20 s))) ^^ n) s)"
  by (induction n) (simp_all add: on_screen_putc1 on_screen_devices)

lemma on_screen_putc: "on_screen m s \<Longrightarrow> on_screen m (cons_putc c s)"
  by (simp add: cons_putc_def cga_putc_def on_screen_putc1 on_screen_devices on_screen_spaces on_screen_scroll)

section \<open>Properties\<close>

text \<open>
  (C13) Console input is a queue: as long as all of it fits the ring, any number of calls of
  \<^verbatim>\<open>cons_getc\<close> return the characters not yet read, then those waiting at the serial port, then
  those the keyboard delivers, each once and in this order, and 0 when there are no more; what
  is left to read is the rest.  Zero bytes do not count as characters: the driver drops them.
\<close>

theorem console_input_order:
  assumes "cons_ok s" and "cons_fits s"
  shows "\<exists>s'. cons_getcs n s = Some (map (\<lambda>b. int (unat b)) (take n (cons_input s)) @
       replicate (n - length (cons_input s)) 0, s') \<and> cons_input s' = drop n (cons_input s)"
  using cons_getcs_input [of s n] assms by (auto simp: cons_inv_def)

theorem console_input_order_witness:
  "\<exists>s'. cons_getcs 4 (demo_console\<lparr>serial_in := [104, 0, 105], kbd_in := [(1, 0x1E)]\<rparr>) = Some ([104, 105, 97, 0], s') \<and>
     cons_input s' = []"
proof -
  let ?s = "demo_console\<lparr>serial_in := [104, 0, 105], kbd_in := [(1, 0x1E)]\<rparr>"
  have q: "cons_queue ?s = []" by (simp add: cons_queue_def demo_console_def CONSBUFSIZE_def)
  have "cons_input ?s = [104, 105, 97]"
    unfolding cons_input_def q serial_chars_def kbd_chars_def demo_console_def by code_simp
  moreover have "cons_ok ?s" "cons_fits ?s"
    using q by (simp_all add: cons_ok_def cons_fits_def CONSBUFSIZE_def) (simp_all add: demo_console_def)
  ultimately show ?thesis using console_input_order [of ?s 4] by simp
qed

text \<open>
  (C14) Polling the keyboard terminates whatever the controller delivers: \<^verbatim>\<open>kbd_intr\<close> makes at most
  one call more than there are pending bytes.
\<close>

theorem kbd_intr_terminates: "\<exists>s'. kbd_intr s = Some s'"
  unfolding kbd_intr_def by (rule kbd_loop_ends) simp

text \<open>
  (C15) Printing any sequence of characters keeps the cursor on the screen and never writes
  outside the screen buffer.
\<close>

theorem cputchar_in_bounds:
  assumes "unat (crt_pos s) < CRT_SIZE"
  shows "unat (crt_pos (fold cputchar cs s)) < CRT_SIZE \<and>
     (\<forall>i \<ge> CRT_SIZE. crt_buf (fold cputchar cs s) i = crt_buf s i)"
proof -
  have "on_screen (crt_buf s) s" using assms by (simp add: on_screen_def)
  then have "on_screen (crt_buf s) (fold cputchar cs s)"
    by (induction cs rule: rev_induct) (simp_all add: cputchar_def on_screen_putc)
  then show ?thesis by (simp add: on_screen_def)
qed

theorem cputchar_in_bounds_witness:
  "unat (crt_pos (fold cputchar [104, 9, 10] (demo_console\<lparr>crt_pos := 1999\<rparr>))) < CRT_SIZE \<and>
     crt_buf (fold cputchar [104, 9, 10] (demo_console\<lparr>crt_pos := 1999\<rparr>)) 2000 = 0"
proof -
  have "unat (crt_pos (demo_console\<lparr>crt_pos := 1999\<rparr>)) < CRT_SIZE" by (simp add: CRT_SIZE_def)
  moreover have "crt_buf (demo_console\<lparr>crt_pos := 1999\<rparr>) 2000 = 0" by (simp add: demo_console_def)
  moreover have "CRT_SIZE \<le> 2000" by (simp add: CRT_SIZE_def)
  ultimately show ?thesis using cputchar_in_bounds [of "demo_console\<lparr>crt_pos := 1999\<rparr>" "[104, 9, 10]"] by metis
qed

end
