(* ===== verification/Printfmt.thy ===== *)
theory Printfmt
  imports Cstring Console
begin

text \<open>
  Formatted output, \<^verbatim>\<open>lib/printfmt.c\<close>.  A format is a list of characters without the terminating
  zero, and the output is the list of values given to \<^verbatim>\<open>putch\<close>, which are of type \<^verbatim>\<open>int\<close>: the
  characters of the format are widened without sign, those of a \<^verbatim>\<open>%s\<close> argument with sign.  The
  variable arguments are a list of typed values; a format that asks for an argument that is not there or is of another
  type is undefined behaviour, \<open>None\<close>.
\<close>

datatype va = VInt u32 | VLong u64 | VStr "u8 list option"

section \<open>Numbers\<close>

definition hexdigit :: "nat \<Rightarrow> u8" where
  "hexdigit d = map byte ''0123456789abcdef'' ! d"

function printnum :: "nat \<Rightarrow> nat \<Rightarrow> int \<Rightarrow> u8 \<Rightarrow> u8 list" where
  "printnum num base width padc =
     (if 2 \<le> base \<and> base \<le> num
      then printnum (num div base) base (width - 1) padc @ [hexdigit (num mod base)]
      else replicate (nat (width - 1)) padc @ [hexdigit (num mod base)])"
  by auto
termination by (relation "measure (\<lambda>(num, _). num)") auto

declare printnum.simps [simp del]

definition getuint :: "va list \<Rightarrow> nat \<Rightarrow> (nat \<times> va list) option" where
  "getuint ap lflag =
     (case ap of
        VInt w # rest \<Rightarrow> if lflag < 2 then Some (unat w, rest) else None
      | VLong w # rest \<Rightarrow> if 2 \<le> lflag then Some (unat w, rest) else None
      | _ \<Rightarrow> None)"

definition getint :: "va list \<Rightarrow> nat \<Rightarrow> (int \<times> va list) option" where
  "getint ap lflag =
     (case ap of
        VInt w # rest \<Rightarrow> if lflag < 2 then Some (sint w, rest) else None
      | VLong w # rest \<Rightarrow> if 2 \<le> lflag then Some (sint w, rest) else None
      | _ \<Rightarrow> None)"

section \<open>Escape sequences and error messages\<close>

definition isdigit :: "u8 \<Rightarrow> bool" where
  "isdigit ch \<longleftrightarrow> ch \<le> 0x39 \<and> ch \<ge> 0x30"

definition mapcolor :: "u16 \<Rightarrow> u8" where
  "mapcolor ascii_color =
     (let (c, default_value) = (if ascii_color \<ge> 40 then (ascii_color - 10, 0) else (ascii_color, 7))
      in if c = 30 then 0 else if c = 31 then 4 else if c = 32 then 2 else if c = 33 then 6
         else if c = 34 then 1 else if c = 35 then 5 else if c = 36 then 3 else if c = 37 then 7
         else default_value)"

text \<open>A colour sequence \<^verbatim>\<open>[37;00m\<close> after the escape character; it is skipped.\<close>

definition is_color_escape :: "u8 list \<Rightarrow> bool" where
  "is_color_escape r \<longleftrightarrow> 7 \<le> length r \<and> r ! 0 = byte (CHR ''['') \<and> isdigit (r ! 1) \<and> isdigit (r ! 2) \<and>
     r ! 3 = byte (CHR '';'') \<and> isdigit (r ! 4) \<and> isdigit (r ! 5) \<and> r ! 6 = byte (CHR ''m'')"

definition error_string :: "nat \<Rightarrow> string option" where
  "error_string err = map_of
     [(1, ''unspecified error''), (2, ''bad environment''), (3, ''invalid parameter''),
      (4, ''out of memory''), (5, ''out of environments''), (6, ''segmentation fault''),
      (7, ''env is not recving''), (8, ''unexpected end of file''), (9, ''no free space on disk''),
      (10, ''too many files are open''), (11, ''file or block not found''), (12, ''invalid path''),
      (13, ''file already exists''), (14, ''file is not a valid executable''),
      (15, ''operation not supported'')] err"

section \<open>Directives\<close>

record spec =
  padc :: u8
  width :: int
  precision :: int
  lflag :: nat
  altflag :: bool

definition spec0 :: spec where
  "spec0 = \<lparr>padc = 0x20, width = - 1, precision = - 1, lflag = 0, altflag = False\<rparr>"

definition process_precision :: "int \<Rightarrow> spec \<Rightarrow> spec" where
  "process_precision p sp =
     (let sp1 = sp\<lparr>precision := p\<rparr>
      in if width sp1 < 0 then sp1\<lparr>width := p, precision := - 1\<rparr> else sp1)"

text \<open>
  The flags after a percent sign, up to the conversion character (0 at the end of the format).
  The digits of a width are read one by one: \<open>digits\<close> holds the value read so far.
\<close>

fun directive :: "u8 list \<Rightarrow> int option \<Rightarrow> spec \<Rightarrow> va list \<Rightarrow> (u8 \<times> u8 list \<times> spec \<times> va list) option" where
  "directive [] digits sp ap =
     Some (0, [], case digits of None \<Rightarrow> sp | Some p \<Rightarrow> process_precision p sp, ap)"
| "directive (ch # fmt) (Some p) sp ap =
     (if isdigit ch then directive fmt (Some (p * 10 + (uint ch - 0x30))) sp ap
      else let sp = process_precision p sp in
           if ch = byte (CHR ''-'') then directive fmt None (sp\<lparr>padc := ch\<rparr>) ap
           else if ch = byte (CHR ''*'')
           then (case ap of VInt w # rest \<Rightarrow> directive fmt None (process_precision (sint w) sp) rest | _ \<Rightarrow> None)
           else if ch = byte (CHR ''.'')
           then directive fmt None (if width sp < 0 then sp\<lparr>width := 0\<rparr> else sp) ap
           else if ch = byte (CHR ''#'') then directive fmt None (sp\<lparr>altflag := True\<rparr>) ap
           else if ch = byte (CHR ''l'') then directive fmt None (sp\<lparr>lflag := lflag sp + 1\<rparr>) ap
           else Some (ch, fmt, sp, ap))"
| "directive (ch # fmt) None sp ap =
     (if ch = byte (CHR ''-'') then directive fmt None (sp\<lparr>padc := ch\<rparr>) ap
      else if ch = byte (CHR ''0'') then directive fmt None (sp\<lparr>padc := ch\<rparr>) ap
      else if isdigit ch then directive fmt (Some (uint ch - 0x30)) sp ap
      else if ch = byte (CHR ''*'')
      then (case ap of VInt w # rest \<Rightarrow> directive fmt None (process_precision (sint w) sp) rest | _ \<Rightarrow> None)
      else if ch = byte (CHR ''.'')
      then directive fmt None (if width sp < 0 then sp\<lparr>width := 0\<rparr> else sp) ap
      else if ch = byte (CHR ''#'') then directive fmt None (sp\<lparr>altflag := True\<rparr>) ap
      else if ch = byte (CHR ''l'') then directive fmt None (sp\<lparr>lflag := lflag sp + 1\<rparr>) ap
      else Some (ch, fmt, sp, ap))"

text \<open>The string conversion: padding, at most \<^verbatim>\<open>precision\<close> characters, padding.\<close>

definition fmt_string :: "u8 list option \<Rightarrow> spec \<Rightarrow> u32 list" where
  "fmt_string str sp =
     (let p = (case str of Some cs \<Rightarrow> takeWhile (\<lambda>c. c \<noteq> 0) cs | None \<Rightarrow> map byte ''(null)'');
          n = (if precision sp < 0 then length p else min (nat (precision sp)) (length p));
          pre = (if width sp > 0 \<and> padc sp \<noteq> byte (CHR ''-'') then nat (width sp - int n) else 0);
          w1 = (if width sp > 0 \<and> padc sp \<noteq> byte (CHR ''-'')
                then width sp - int n - int pre else width sp);
          body = map (\<lambda>ch. if altflag sp \<and> (ch < 0x20 \<or> ch > 0x7E) then 0x3F else scast ch) (take n p);
          post = nat (w1 - int n)
      in replicate pre (ucast (padc sp)) @ body @ replicate post 0x20)"

definition fmt_signed :: "int \<Rightarrow> nat \<Rightarrow> spec \<Rightarrow> u8 list" where
  "fmt_signed v base sp =
     (if v < 0 then byte (CHR ''-'') # printnum (nat (- v)) base (width sp) (padc sp)
      else printnum (nat v) base (width sp) (padc sp))"

definition fmt_error :: "int \<Rightarrow> u32 list" where
  "fmt_error e =
     (let err = nat \<bar>e\<bar>
      in case (if MAXERROR \<le> err then None else error_string err) of
           None \<Rightarrow> map ucast (map byte ''error '' @ fmt_signed (int err) 10 spec0)
         | Some p \<Rightarrow> fmt_string (Some (map byte p)) spec0)"

text \<open>The output of a conversion, \<open>None\<close> in the inner option for an unknown one.\<close>

definition convert :: "u8 \<Rightarrow> spec \<Rightarrow> va list \<Rightarrow> (u32 list \<times> va list) option option" where
  "convert ch sp ap =
     (if ch = byte (CHR ''c'')
      then (case ap of VInt w # rest \<Rightarrow> Some (Some ([w], rest)) | _ \<Rightarrow> None)
      else if ch = byte (CHR ''e'')
      then (case ap of VInt w # rest \<Rightarrow>
              if sint w = - (2 ^ 31) then None else Some (Some (fmt_error (sint w), rest)) | _ \<Rightarrow> None)
      else if ch = byte (CHR ''s'')
      then (case ap of VStr p # rest \<Rightarrow> Some (Some (fmt_string p sp, rest)) | _ \<Rightarrow> None)
      else if ch = byte (CHR ''d'')
      then map_option (\<lambda>(v, rest). Some (map ucast (fmt_signed v 10 sp), rest)) (getint ap (lflag sp))
      else if ch = byte (CHR ''u'')
      then map_option (\<lambda>(v, rest). Some (map ucast (printnum v 10 (width sp) (padc sp)), rest)) (getuint ap (lflag sp))
      else if ch = byte (CHR ''o'')
      then map_option (\<lambda>(v, rest). Some (map ucast (fmt_signed v 8 sp), rest)) (getint ap (lflag sp))
      else if ch = byte (CHR ''p'')
      then (case ap of VInt w # rest \<Rightarrow>
              Some (Some (map ucast (map byte ''0x'' @ printnum (unat w) 16 (width sp) (padc sp)), rest)) | _ \<Rightarrow> None)
      else if ch = byte (CHR ''x'')
      then map_option (\<lambda>(v, rest). Some (map ucast (printnum v 16 (width sp) (padc sp)), rest)) (getuint ap (lflag sp))
      else if ch = byte (CHR ''%'') then Some (Some ([ucast ch], ap))
      else Some None)"

lemma directive_shorter:
  "directive fmt d sp ap = Some (ch, fmt', sp', ap') \<Longrightarrow> length fmt' \<le> length fmt"
proof (induction fmt arbitrary: d sp ap)
  case (Cons c fmt)
  then show ?case
    by (cases d) (auto simp: Let_def le_Suc_eq split: if_splits list.split_asm va.split_asm)
qed (simp split: option.split_asm)

function vprintfmt :: "u8 list \<Rightarrow> va list \<Rightarrow> u32 list option" where
  "vprintfmt [] ap = Some []"
| "vprintfmt (ch # fmt) ap =
     (if ch \<noteq> byte (CHR ''%'')
      then if ch = 0x1B \<and> is_color_escape fmt then vprintfmt (drop 7 fmt) ap
           else map_option ((#) (ucast ch)) (vprintfmt fmt ap)
      else (case directive fmt None spec0 ap of
              None \<Rightarrow> None
            | Some (c, rest, sp, ap1) \<Rightarrow>
                (case convert c sp ap1 of
                   None \<Rightarrow> None
                 | Some (Some (out, ap2)) \<Rightarrow> map_option ((@) out) (vprintfmt rest ap2)
                 | Some None \<Rightarrow> map_option ((#) (ucast ch)) (vprintfmt fmt ap1))))"
  by pat_completeness auto
termination
  by (relation "measure (\<lambda>(fmt, _). length fmt)") (auto dest!: directive_shorter)

text \<open>A character that was widened is stored as it was.\<close>

lemma narrow_widen [simp]: "(ucast :: u32 \<Rightarrow> u8) \<circ> (ucast :: u8 \<Rightarrow> u32) = id"
  by (auto simp: fun_eq_iff intro!: bit_word_eqI simp: bit_simps)

text \<open>Text without directives and escapes is printed as it is.\<close>

definition plain :: "u8 list \<Rightarrow> bool" where
  "plain cs \<longleftrightarrow> byte (CHR ''%'') \<notin> set cs \<and> 0x1B \<notin> set cs"

lemma vprintfmt_plain: "plain cs \<Longrightarrow> vprintfmt (cs @ fmt) ap = map_option ((@) (map ucast cs)) (vprintfmt fmt ap)"
  by (induction cs) (cases "vprintfmt fmt ap"; auto simp: plain_def)+

section \<open>Into a buffer\<close>

text \<open>
  \<^verbatim>\<open>sprintputch\<close> counts every character and stores those that fit before the last cell.
\<close>

record sprintbuf =
  sbuf :: nat
  ebuf :: nat
  cnt :: nat

definition sprintputch :: "u32 \<Rightarrow> memory \<times> sprintbuf \<Rightarrow> memory \<times> sprintbuf" where
  "sprintputch ch = (\<lambda>(m, b).
     let b1 = b\<lparr>cnt := cnt b + 1\<rparr>
     in if sbuf b1 < ebuf b1 then (m(sbuf b1 := ucast ch), b1\<lparr>sbuf := sbuf b1 + 1\<rparr>) else (m, b1))"

definition vsnprintf :: "memory \<Rightarrow> nat option \<Rightarrow> int \<Rightarrow> u8 list \<Rightarrow> va list \<Rightarrow> (int \<times> memory) option" where
  "vsnprintf m buf n fmt ap =
     (case buf of
        None \<Rightarrow> Some (- E_INVAL, m)
      | Some p \<Rightarrow>
          if n < 1 then Some (- E_INVAL, m)
          else do { out \<leftarrow> vprintfmt fmt ap;
                    let (m1, b) = fold sprintputch out (m, \<lparr>sbuf = p, ebuf = p + nat n - 1, cnt = 0\<rparr>);
                    Some (int (cnt b), m1(sbuf b := 0)) })"

section \<open>On the console\<close>

text \<open>
  The kernel's \<^verbatim>\<open>cprintf\<close>, \<^verbatim>\<open>kern/printf.c\<close>.  Its \<^verbatim>\<open>putch\<close> increments the pointer to the counter and
  not the counter, so the result is always 0.
\<close>

definition vcprintf :: "u8 list \<Rightarrow> va list \<Rightarrow> console \<Rightarrow> (int \<times> console) option" where
  "vcprintf fmt ap c = do { out \<leftarrow> vprintfmt fmt ap; Some (0, fold cputchar out c) }"

definition cprintf :: "string \<Rightarrow> va list \<Rightarrow> console \<Rightarrow> console option" where
  "cprintf fmt ap c = map_option snd (vcprintf (map byte fmt) ap c)"

section \<open>Printed numbers can be read back\<close>

text \<open>The value of a list of digits, most significant first.\<close>

definition digits_value :: "nat \<Rightarrow> u8 list \<Rightarrow> nat \<Rightarrow> nat" where
  "digits_value base ds v = foldl (\<lambda>a d. a * base + the (digit d)) v ds"

definition is_digit :: "nat \<Rightarrow> u8 \<Rightarrow> bool" where
  "is_digit base d \<longleftrightarrow> (\<exists>v < base. digit d = Some v)"

lemma digit_hexdigit: "d < 16 \<Longrightarrow> digit (hexdigit d) = Some d"
proof -
  assume "d < 16"
  then have "d \<in> set [0..<16]" by simp
  moreover have "\<forall>d \<in> set [0..<16]. digit (hexdigit d) = Some d"
    by (simp add: upt_rec hexdigit_def digit_def byte_def of_char_def)
  ultimately show ?thesis by blast
qed

text \<open>The digits of a number, and what \<^verbatim>\<open>printnum\<close> prints in front of them.\<close>

function digits_of :: "nat \<Rightarrow> nat \<Rightarrow> u8 list" where
  "digits_of base num =
     (if 2 \<le> base \<and> base \<le> num then digits_of base (num div base) else []) @ [hexdigit (num mod base)]"
  by auto
termination by (relation "measure (\<lambda>(_, num). num)") auto

declare digits_of.simps [simp del]

lemma printnum_digits:
  "printnum num base w c = replicate (nat (w - int (length (digits_of base num)))) c @ digits_of base num"
proof (induction num base w c rule: printnum.induct)
  case (1 num base w c)
  show ?case
  proof (cases "2 \<le> base \<and> base \<le> num")
    case True
    have "digits_of base num = digits_of base (num div base) @ [hexdigit (num mod base)]"
      using True by (subst digits_of.simps) simp
    moreover have "w - 1 - int n = w - int (n + 1)" for n by simp
    ultimately show ?thesis using 1 True by (subst printnum.simps) (simp add: algebra_simps)
  next
    case False
    then show ?thesis by (subst printnum.simps, subst (1 2) digits_of.simps) auto
  qed
qed

lemma digits_value_snoc:
  "digits_value base (ds @ [d]) v = digits_value base ds v * base + the (digit d)"
  by (simp add: digits_value_def)

lemma digits_of_correct:
  assumes "2 \<le> base" and "base \<le> 16"
  shows "(\<forall>d \<in> set (digits_of base num). is_digit base d) \<and>
     digits_value base (digits_of base num) 0 = num"
  using assms
proof (induction base num rule: digits_of.induct)
  case (1 base num)
  have lt: "num mod base < base" using 1(2) by simp
  then have last: "digit (hexdigit (num mod base)) = Some (num mod base)"
    using 1(3) by (intro digit_hexdigit) simp
  then have d: "is_digit base (hexdigit (num mod base))" using lt unfolding is_digit_def by blast
  show ?case
  proof (cases "base \<le> num")
    case True
    then have "digits_of base num = digits_of base (num div base) @ [hexdigit (num mod base)]"
      using 1(2) by (subst digits_of.simps) simp
    then show ?thesis using 1 True d last by (simp add: digits_value_snoc)
  next
    case False
    then have "digits_of base num = [hexdigit (num mod base)]" by (subst digits_of.simps) simp
    then show ?thesis using d last False by (simp add: digits_value_def)
  qed
qed

lemma digits_of_nonempty [simp]: "digits_of base num \<noteq> []"
  by (subst digits_of.simps) simp

text \<open>\<^verbatim>\<open>strtol\<close> over a list of digits that ends the string.\<close>

lemma strtol_digits_cstr:
  assumes "cstr m s ds" and "\<forall>d \<in> set ds. is_digit base d"
  shows "strtol_digits m s base (word_of_nat v) = Some (s + length ds, word_of_nat (digits_value base ds v))"
  using assms
proof (induction ds arbitrary: s v)
  case Nil
  then have "digit (m s) = None" by (simp add: digit_def)
  then show ?case by (subst strtol_digits.simps) (simp add: digits_value_def)
next
  case (Cons d ds)
  then obtain k where k: "digit d = Some k" "k < base" by (auto simp: is_digit_def)
  have "strtol_digits m s base (word_of_nat v) = strtol_digits m (s + 1) base (word_of_nat (v * base + k))"
    using Cons.prems k by (subst strtol_digits.simps) simp
  also have "\<dots> = Some (s + 1 + length ds, word_of_nat (digits_value base ds (v * base + k)))"
    using Cons.prems by (intro Cons.IH) auto
  finally show ?case using k by (simp add: digits_value_def)
qed

lemma digits_plain: "is_digit base d \<Longrightarrow> d \<noteq> 0x20 \<and> d \<noteq> 0x09 \<and> d \<noteq> 0x2B \<and> d \<noteq> 0x2D \<and> d \<noteq> 0"
  by (auto simp: is_digit_def digit_def)

lemma strtol_decimal:
  assumes "cstr m s ds" and "ds \<noteq> []" and "\<forall>d \<in> set ds. is_digit 10 d"
  shows "strtol m s 10 = Some (word_of_nat (digits_value 10 ds 0), s + length ds)"
proof -
  obtain d ds' where ds: "ds = d # ds'" using assms(2) by (cases ds) auto
  then have "m s = d" using assms(1) by simp
  with digits_plain [of 10 d] assms(3) ds
  have "m s \<noteq> 0x20" "m s \<noteq> 0x09" "m s \<noteq> 0x2B" "m s \<noteq> 0x2D" by auto
  then show ?thesis
    using strtol_digits_cstr [OF assms(1,3), of 0] by (simp add: strtol_def skip_blanks.simps Let_def)
qed

lemma strtol_negative:
  assumes "cstr m s (0x2D # ds)" and "\<forall>d \<in> set ds. is_digit 10 d"
  shows "strtol m s 10 = Some (- word_of_nat (digits_value 10 ds 0), s + length ds + 1)"
proof -
  have "cstr m (s + 1) ds" "m s = 0x2D" using assms(1) by auto
  then show ?thesis
    using strtol_digits_cstr [OF _ assms(2), of m "s + 1" 0] by (simp add: strtol_def skip_blanks.simps Let_def)
qed

lemma length_digits_of: "2 \<le> base \<Longrightarrow> num < base ^ k \<Longrightarrow> 0 < k \<Longrightarrow> length (digits_of base num) \<le> k"
proof (induction k arbitrary: num)
  case (Suc k)
  show ?case
  proof (cases "base \<le> num")
    case True
    then have "k \<noteq> 0" using Suc.prems by (cases k) auto
    moreover have "num div base < base ^ k"
      using Suc.prems(1,2) by (simp add: less_mult_imp_div_less mult.commute)
    ultimately have "length (digits_of base (num div base)) \<le> k" using Suc.IH Suc.prems(1) by simp
    then show ?thesis using True Suc.prems(1) by (subst digits_of.simps) simp
  next
    case False
    then show ?thesis by (subst digits_of.simps) simp
  qed
qed simp

section \<open>What a bounded print leaves in memory\<close>

definition written :: "memory \<Rightarrow> nat \<Rightarrow> u8 list \<Rightarrow> memory" where
  "written m p cs = (\<lambda>a. if p \<le> a \<and> a < p + length cs then cs ! (a - p) else m a)"

lemma written_Nil [simp]: "written m p [] = m"
  by (auto simp: written_def fun_eq_iff)

lemma written_Cons: "written (m(p := c)) (p + 1) cs = written m p (c # cs)"
  by (auto simp: written_def fun_eq_iff nth_Cons' Suc_le_eq)

lemma sprintputch_all:
  "fold sprintputch out (m, \<lparr>sbuf = p, ebuf = e, cnt = c\<rparr>) =
     (written m p (map ucast (take (e - p) out)),
      \<lparr>sbuf = p + min (e - p) (length out), ebuf = e, cnt = c + length out\<rparr>)"
proof (induction out arbitrary: m p c)
  case (Cons x out)
  show ?case
  proof (cases "p < e")
    case True
    then have e: "e - p = Suc (e - (p + 1))" by simp
    have step: "sprintputch x (m, \<lparr>sbuf = p, ebuf = e, cnt = c\<rparr>) =
        (m(p := ucast x), \<lparr>sbuf = p + 1, ebuf = e, cnt = c + 1\<rparr>)"
      using True by (simp add: sprintputch_def Let_def)
    show ?thesis unfolding fold_simps step o_apply Cons written_Cons e by simp
  next
    case False
    then show ?thesis using Cons [of m p "c + 1"] by (simp add: sprintputch_def Let_def)
  qed
qed simp

lemma cstr_written:
  assumes "\<forall>c \<in> set cs. c \<noteq> 0"
  shows "cstr ((written m p cs)(p + length cs := 0)) p cs"
  using assms
proof (induction cs arbitrary: m p)
  case (Cons c cs)
  define m1 where "m1 = (written m p (c # cs))(p + length (c # cs) := 0)"
  have "cstr ((written (m(p := c)) (p + 1) cs)(p + 1 + length cs := 0)) (p + 1) cs"
    by (rule Cons.IH) (use Cons.prems in simp)
  then have "cstr m1 (p + 1) cs" unfolding written_Cons m1_def by simp
  moreover have "m1 p = c" by (simp add: m1_def written_def)
  ultimately have "cstr m1 p (c # cs)" using Cons.prems by simp
  then show ?case unfolding m1_def .
qed simp

lemma vsnprintf_written:
  assumes "vprintfmt fmt ap = Some out" and "1 \<le> n"
  shows "vsnprintf m (Some p) n fmt ap =
     Some (int (length out), (written m p (map ucast (take (nat n - 1) out)))(p + min (nat n - 1) (length out) := 0))"
  using assms sprintputch_all [of out m p "p + nat n - 1" 0] by (simp add: vsnprintf_def Let_def)

lemma percent_d: "vprintfmt (map byte ''%d'') [VInt w] = Some (map ucast (fmt_signed (sint w) 10 spec0))"
  by (simp add: byte_def of_char_def isdigit_def spec0_def convert_def getint_def)

section \<open>Properties\<close>

text \<open>
  (C20) \<^verbatim>\<open>vsnprintf\<close> never writes outside the \<open>n\<close> cells of the buffer, always terminates what it wrote,
  stores as much of the output as fits, and returns the length of the whole output.
\<close>

theorem vsnprintf_bounded:
  assumes "vprintfmt fmt ap = Some out" and "1 \<le> n"
  shows "\<exists>m'. vsnprintf m (Some p) n fmt ap = Some (int (length out), m') \<and>
     map m' [p..<p + min (nat n - 1) (length out)] = map ucast (take (nat n - 1) out) \<and>
     m' (p + min (nat n - 1) (length out)) = 0 \<and>
     (\<forall>a. a < p \<or> p + nat n \<le> a \<longrightarrow> m' a = m a)"
proof -
  let ?k = "min (nat n - 1) (length out)"
  define m' where "m' = (written m p (map ucast (take (nat n - 1) out)))(p + ?k := 0)"
  have "map m' [p..<p + ?k] = map ucast (take (nat n - 1) out)"
    by (rule nth_equalityI) (auto simp: m'_def written_def)
  moreover have "m' a = m a" if "a < p \<or> p + nat n \<le> a" for a
  proof -
    have "a \<noteq> p + ?k" "\<not> (p \<le> a \<and> a < p + length (take (nat n - 1) out))" using that assms(2) by auto
    then show ?thesis by (auto simp: m'_def written_def)
  qed
  moreover have "m' (p + ?k) = 0" by (simp add: m'_def)
  moreover have "vsnprintf m (Some p) n fmt ap = Some (int (length out), m')"
    unfolding m'_def by (rule vsnprintf_written [OF assms])
  ultimately show ?thesis by blast
qed

theorem vsnprintf_bounded_witness:
  "\<exists>m'. vsnprintf (\<lambda>_. 7) (Some 10) 3 (map byte ''abcd'') [] = Some (4, m') \<and>
     map m' [10..<12] = map byte ''ab'' \<and> m' 12 = 0 \<and> (\<forall>a. a < 10 \<or> 13 \<le> a \<longrightarrow> m' a = 7)"
proof -
  have "vprintfmt (map byte ''abcd'') [] = Some [0x61, 0x62, 0x63, 0x64]" by (simp add: byte_def of_char_def)
  from vsnprintf_bounded [OF this, of 3 "\<lambda>_. 7" 10] show ?thesis
    by (simp add: byte_def of_char_def upt_rec)
qed

text \<open>
  (C21) Printing a 32-bit number with \<^verbatim>\<open>%d\<close> into a buffer of twelve bytes and reading the buffer with
  \<^verbatim>\<open>strtol\<close> gives the number back, negative ones included, and the reader stops where the printer
  stopped.
\<close>

theorem print_strtol_roundtrip:
  "\<exists>k m'. vsnprintf m (Some p) 12 (map byte ''%d'') [VInt w] = Some (int k, m') \<and>
     strtol m' p 10 = Some (w, p + k)"
proof -
  define v where "v = nat \<bar>sint w\<bar>"
  have ge: "- (2 ^ 31) \<le> sint w" and lt: "sint w < 2 ^ 31"
    using sint_range_size [of w] by (simp_all add: word_size)
  have len: "length (digits_of 10 v) \<le> 10"
    by (rule length_digits_of) (use ge lt in \<open>auto simp: v_def\<close>)
  have ok: "\<forall>d \<in> set (digits_of 10 v). is_digit 10 d" "digits_value 10 (digits_of 10 v) 0 = v"
    using digits_of_correct [of 10 v] by auto
  then have nz: "\<forall>d \<in> set (digits_of 10 v). d \<noteq> 0" using digits_plain by blast
  have pn: "printnum v 10 (- 1) c = digits_of 10 v" for c by (simp add: printnum_digits)
  show ?thesis
  proof (cases "sint w < 0")
    case True
    let ?out = "0x2D # digits_of 10 v"
    have "fmt_signed (sint w) 10 spec0 = ?out"
      using True pn by (simp add: fmt_signed_def spec0_def v_def byte_def of_char_def)
    then have "vsnprintf m (Some p) 12 (map byte ''%d'') [VInt w] =
        Some (int (length ?out), (written m p ?out)(p + length ?out := 0))"
      using vsnprintf_written [OF percent_d, of 12 m p w] len by simp
    moreover have "cstr ((written m p ?out)(p + length ?out := 0)) p ?out"
      by (rule cstr_written) (use nz in simp)
    from strtol_negative [OF this ok(1)] ok(2)
    have "strtol ((written m p ?out)(p + length ?out := 0)) p 10 = Some (- word_of_nat v, p + length ?out)" by simp
    moreover have "- word_of_nat v = w"
      using True by (simp add: v_def)
    ultimately show ?thesis by auto
  next
    case False
    let ?out = "digits_of 10 v"
    have "fmt_signed (sint w) 10 spec0 = ?out" using False pn by (simp add: fmt_signed_def spec0_def v_def)
    then have "vsnprintf m (Some p) 12 (map byte ''%d'') [VInt w] =
        Some (int (length ?out), (written m p ?out)(p + length ?out := 0))"
      using vsnprintf_written [OF percent_d, of 12 m p w] len by simp
    moreover have "cstr ((written m p ?out)(p + length ?out := 0)) p ?out" by (rule cstr_written) (rule nz)
    from strtol_decimal [OF this _ ok(1)] ok(2)
    have "strtol ((written m p ?out)(p + length ?out := 0)) p 10 = Some (word_of_nat v, p + length ?out)" by simp
    moreover have "word_of_nat v = w" using False by (simp add: v_def)
    ultimately show ?thesis by auto
  qed
qed

end
