(* ===== verification/E1000.thy ===== *)
theory E1000
  imports Prelude
begin

text \<open>
  The network card driver, \<^verbatim>\<open>kern/e1000.c\<close>.  The card's registers are a map from word indices to
  words, the descriptor rings are maps from indices to descriptors, and each family of packet
  buffers is the one contiguous array of bytes the C code declares, so that a write past one
  buffer lands in the next.  A write past the whole array, or a negative length (a huge one for
  \<^verbatim>\<open>memmove\<close>), is undefined behaviour: \<open>None\<close>.  The C code then goes on with whatever it has
  overwritten; what is stated about sending a packet requires that it fits its buffer.
\<close>

section \<open>Registers and descriptors\<close>

definition LOCATION :: "nat \<Rightarrow> nat" where "LOCATION offset = offset div 4"

definition E1000_TDBAL :: nat where [jos_consts]: "E1000_TDBAL = 0x03800"
definition E1000_TDLEN :: nat where [jos_consts]: "E1000_TDLEN = 0x03808"
definition E1000_TDH :: nat where [jos_consts]: "E1000_TDH = 0x03810"
definition E1000_TDT :: nat where [jos_consts]: "E1000_TDT = 0x03818"
definition E1000_TCTL :: nat where [jos_consts]: "E1000_TCTL = 0x00400"
definition E1000_TIPG :: nat where [jos_consts]: "E1000_TIPG = 0x00410"
definition E1000_RA :: nat where [jos_consts]: "E1000_RA = 0x05400"
definition E1000_RDBAL :: nat where [jos_consts]: "E1000_RDBAL = 0x02800"
definition E1000_RDLEN :: nat where [jos_consts]: "E1000_RDLEN = 0x02808"
definition E1000_RDH :: nat where [jos_consts]: "E1000_RDH = 0x02810"
definition E1000_RDT :: nat where [jos_consts]: "E1000_RDT = 0x02818"
definition E1000_RCTL :: nat where [jos_consts]: "E1000_RCTL = 0x00100"

definition E1000_TCTL_EN :: u32 where [jos_consts]: "E1000_TCTL_EN = 0x00000002"
definition E1000_TCTL_PSP :: u32 where [jos_consts]: "E1000_TCTL_PSP = 0x00000008"
definition E1000_TCTL_CT :: u32 where [jos_consts]: "E1000_TCTL_CT = 0x00000ff0"
definition E1000_TCTL_COLD :: u32 where [jos_consts]: "E1000_TCTL_COLD = 0x003ff000"

record e1000_tx_desc =
  tx_addr :: u64
  tx_length :: u16
  tx_cso :: u8
  tx_cmd :: u8
  tx_status :: u8
  tx_css :: u8
  tx_special :: u16

definition E1000_TXD_STAT_DD :: u8 where [jos_consts]: "E1000_TXD_STAT_DD = 1"
definition E1000_TXD_CMD_RS :: u8 where [jos_consts]: "E1000_TXD_CMD_RS = 0x08"
definition E1000_TXD_CMD_EOP :: u8 where [jos_consts]: "E1000_TXD_CMD_EOP = 0x01"
definition E1000_TX_DESC_ARRAY_SIZE :: nat where [jos_consts]: "E1000_TX_DESC_ARRAY_SIZE = 64"
definition E1000_TX_DESC_BUF_MTU :: nat where [jos_consts]: "E1000_TX_DESC_BUF_MTU = 1518"
definition E1000_RCTL_EN :: u32 where [jos_consts]: "E1000_RCTL_EN = 0x00000002"
definition E1000_RCTL_BAM :: u32 where [jos_consts]: "E1000_RCTL_BAM = 0x00008000"
definition E1000_RCTL_SECRC :: u32 where [jos_consts]: "E1000_RCTL_SECRC = 0x04000000"
definition E1000_RAH_AV :: u32 where [jos_consts]: "E1000_RAH_AV = 0x80000000"

record e1000_rx_desc =
  rx_buffer_addr :: u64
  rx_length :: u16
  rx_csum :: u16
  rx_status :: u8
  rx_errors :: u8
  rx_special :: u16

definition E1000_RXD_STAT_DD :: u8 where [jos_consts]: "E1000_RXD_STAT_DD = 0x01"
definition E1000_RX_DESC_ARRAY_SIZE :: nat where [jos_consts]: "E1000_RX_DESC_ARRAY_SIZE = 128"
definition E1000_RX_DESC_BUF_MTU :: nat where [jos_consts]: "E1000_RX_DESC_BUF_MTU = 1518"

text \<open>
  The driver's globals; \<open>tx_pa\<close>, \<open>txbuf_pa\<close>, \<open>rx_pa\<close> and \<open>rxbuf_pa\<close> are the physical addresses
  the linker and \<^verbatim>\<open>PADDR\<close> give the arrays.
\<close>

record e1000_state =
  e1000 :: "nat \<Rightarrow> u32"
  e1000_tx_desc_array :: "nat \<Rightarrow> e1000_tx_desc"
  e1000_tx_packet_buf :: "nat \<Rightarrow> u8"
  e1000_rx_desc_array :: "nat \<Rightarrow> e1000_rx_desc"
  e1000_rx_packet_buf :: "nat \<Rightarrow> u8"
  rx_next :: nat
  tx_pa :: u32
  txbuf_pa :: u32
  rx_pa :: u32
  rxbuf_pa :: u32

definition zero_tx_desc :: e1000_tx_desc where
  "zero_tx_desc = \<lparr>tx_addr = 0, tx_length = 0, tx_cso = 0, tx_cmd = 0, tx_status = 0, tx_css = 0,
     tx_special = 0\<rparr>"

definition zero_rx_desc :: e1000_rx_desc where
  "zero_rx_desc = \<lparr>rx_buffer_addr = 0, rx_length = 0, rx_csum = 0, rx_status = 0, rx_errors = 0,
     rx_special = 0\<rparr>"

definition set_reg :: "nat \<Rightarrow> u32 \<Rightarrow> e1000_state \<Rightarrow> e1000_state" where
  "set_reg r v n = n\<lparr>e1000 := (e1000 n)(LOCATION r := v)\<rparr>"

section \<open>Operations\<close>

definition e1000_transmit_init :: "e1000_state \<Rightarrow> e1000_state" where
  "e1000_transmit_init n =
     (let n1 = n\<lparr>e1000_tx_desc_array := (\<lambda>i.
            if i < E1000_TX_DESC_ARRAY_SIZE
            then zero_tx_desc\<lparr>tx_addr := ucast (txbuf_pa n + word_of_nat (i * E1000_TX_DESC_BUF_MTU)),
                   tx_status := E1000_TXD_STAT_DD, tx_cmd := E1000_TXD_CMD_RS OR E1000_TXD_CMD_EOP\<rparr>
            else e1000_tx_desc_array n i)\<rparr>;
          n2 = set_reg E1000_TDBAL (tx_pa n) n1;
          n3 = set_reg E1000_TDLEN (16 * word_of_nat E1000_TX_DESC_ARRAY_SIZE) n2;
          n4 = set_reg E1000_TDH 0 n3;
          n5 = set_reg E1000_TDT 0 n4;
          n6 = set_reg E1000_TCTL (((E1000_TCTL_EN OR E1000_TCTL_PSP) OR
                 (E1000_TCTL_CT AND push_bit 4 0x10)) OR (E1000_TCTL_COLD AND push_bit 12 0x40)) n5
      in set_reg E1000_TIPG ((10 OR push_bit 10 4) OR push_bit 20 6) n6)"

text \<open>\<^verbatim>\<open>memmove\<close> into a byte array of the given size, at \<open>base\<close>.\<close>

definition blit :: "nat \<Rightarrow> (nat \<Rightarrow> u8) \<Rightarrow> nat \<Rightarrow> u8 list \<Rightarrow> (nat \<Rightarrow> u8) option" where
  "blit sz a base bs =
     (if base + length bs \<le> sz
      then Some (\<lambda>i. if base \<le> i \<and> i < base + length bs then bs ! (i - base) else a i)
      else None)"

definition tx_index :: "e1000_state \<Rightarrow> nat" where
  "tx_index n = unat (e1000 n (LOCATION E1000_TDT))"

text \<open>The argument is what reading \<^verbatim>\<open>len\<close> bytes at \<^verbatim>\<open>addr\<close> gives, \<open>None\<close> for a fault.\<close>

definition e1000_transmit :: "u8 list option \<Rightarrow> e1000_state \<Rightarrow> (int \<times> e1000_state) option" where
  "e1000_transmit pkt n =
     (let e1000_tdt = tx_index n; d = e1000_tx_desc_array n e1000_tdt
      in if \<not> e1000_tdt < E1000_TX_DESC_ARRAY_SIZE then None
         else if tx_status d AND E1000_TXD_STAT_DD = 0 then Some (- 1, n)
         else do { bs \<leftarrow> pkt;
                   buf \<leftarrow> blit (E1000_TX_DESC_ARRAY_SIZE * E1000_TX_DESC_BUF_MTU) (e1000_tx_packet_buf n)
                           (e1000_tdt * E1000_TX_DESC_BUF_MTU) bs;
                   let n1 = n\<lparr>e1000_tx_packet_buf := buf,
                          e1000_tx_desc_array := (e1000_tx_desc_array n)(e1000_tdt :=
                             d\<lparr>tx_status := tx_status d AND NOT E1000_TXD_STAT_DD,
                               tx_length := word_of_nat (length bs)\<rparr>)\<rparr>;
                   Some (0, set_reg E1000_TDT
                     (word_of_nat ((e1000_tdt + 1) mod E1000_TX_DESC_ARRAY_SIZE)) n1) })"

definition e1000_receive_init :: "e1000_state \<Rightarrow> e1000_state" where
  "e1000_receive_init n =
     (let n1 = set_reg E1000_RA 0x12005452 n;
          n2 = n1\<lparr>e1000 := (e1000 n1)(LOCATION E1000_RA + 1 := 0x00005634 OR E1000_RAH_AV)\<rparr>;
          n3 = n2\<lparr>e1000_rx_desc_array := (\<lambda>i.
            if i < E1000_RX_DESC_ARRAY_SIZE
            then zero_rx_desc\<lparr>rx_buffer_addr := ucast (rxbuf_pa n + word_of_nat (i * E1000_RX_DESC_BUF_MTU))\<rparr>
            else e1000_rx_desc_array n i)\<rparr>;
          n4 = set_reg E1000_RDBAL (rx_pa n) n3;
          n5 = set_reg E1000_RDLEN (16 * word_of_nat E1000_RX_DESC_ARRAY_SIZE) n4;
          n6 = set_reg E1000_RDH 0 n5;
          n7 = set_reg E1000_RDT (word_of_nat (E1000_RX_DESC_ARRAY_SIZE - 1)) n6
      in set_reg E1000_RCTL ((E1000_RCTL_EN OR E1000_RCTL_BAM) OR E1000_RCTL_SECRC) n7)"

text \<open>The result, and the packet that \<^verbatim>\<open>*len\<close> and \<^verbatim>\<open>memcpy\<close> hand to the caller.\<close>

definition e1000_receive :: "e1000_state \<Rightarrow> (int \<times> u8 list \<times> e1000_state) option" where
  "e1000_receive n =
     (let tail = unat (e1000 n (LOCATION E1000_RDT)); d = e1000_rx_desc_array n (rx_next n);
          len = unat (rx_length d)
      in if rx_status d AND E1000_RXD_STAT_DD = 0 then Some (- 1, [], n)
         else if \<not> rx_next n * E1000_RX_DESC_BUF_MTU + len
                   \<le> E1000_RX_DESC_ARRAY_SIZE * E1000_RX_DESC_BUF_MTU then None
         else let pkt = map (\<lambda>i. e1000_rx_packet_buf n (rx_next n * E1000_RX_DESC_BUF_MTU + i)) [0..<len];
                  n1 = n\<lparr>e1000_rx_desc_array := (e1000_rx_desc_array n)(rx_next n :=
                           d\<lparr>rx_status := rx_status d AND NOT E1000_RXD_STAT_DD\<rparr>),
                         rx_next := (rx_next n + 1) mod E1000_RX_DESC_ARRAY_SIZE\<rparr>
              in Some (0, pkt, set_reg E1000_RDT
                   (word_of_nat ((tail + 1) mod E1000_RX_DESC_ARRAY_SIZE)) n1))"

section \<open>The transmit ring as a queue\<close>

text \<open>
  The descriptors from the head register to the tail register belong to the card: the packets
  in their buffers are the transmit queue.  In a well-formed ring exactly these descriptors
  have the done bit clear.
\<close>

definition tx_head :: "e1000_state \<Rightarrow> nat" where
  "tx_head n = unat (e1000 n (LOCATION E1000_TDH))"

definition tx_packet :: "e1000_state \<Rightarrow> nat \<Rightarrow> u8 list" where
  "tx_packet n i = map (\<lambda>k. e1000_tx_packet_buf n (i * E1000_TX_DESC_BUF_MTU + k))
     [0..<unat (tx_length (e1000_tx_desc_array n i))]"

definition ring_ids :: "nat \<Rightarrow> nat \<Rightarrow> nat list" where
  "ring_ids h len = map (\<lambda>k. (h + k) mod E1000_TX_DESC_ARRAY_SIZE) [0..<len]"

definition tx_len :: "e1000_state \<Rightarrow> nat" where
  "tx_len n = (tx_index n + E1000_TX_DESC_ARRAY_SIZE - tx_head n) mod E1000_TX_DESC_ARRAY_SIZE"

definition tx_queue :: "e1000_state \<Rightarrow> u8 list list" where
  "tx_queue n = map (tx_packet n) (ring_ids (tx_head n) (tx_len n))"

definition tx_ring_ok :: "e1000_state \<Rightarrow> bool" where
  "tx_ring_ok n \<longleftrightarrow> tx_head n < E1000_TX_DESC_ARRAY_SIZE \<and> tx_index n < E1000_TX_DESC_ARRAY_SIZE \<and>
     (\<forall>i < E1000_TX_DESC_ARRAY_SIZE. tx_status (e1000_tx_desc_array n i) AND E1000_TXD_STAT_DD = 0
        \<longleftrightarrow> i \<in> set (ring_ids (tx_head n) (tx_len n))) \<and>
     (\<forall>i < E1000_TX_DESC_ARRAY_SIZE. unat (tx_length (e1000_tx_desc_array n i)) \<le> E1000_TX_DESC_BUF_MTU)"

lemma ring_ids_Suc: "ring_ids h (Suc k) = ring_ids h k @ [(h + k) mod E1000_TX_DESC_ARRAY_SIZE]"
  by (simp add: ring_ids_def)

lemma tx_tail_pos:
  assumes "tx_head n < 64" and "tx_index n < 64"
  shows "(tx_head n + tx_len n) mod 64 = tx_index n"
  using assms by (cases "tx_head n \<le> tx_index n") (auto simp: tx_len_def jos_consts mod_if)

lemma tail_not_in_ring:
  assumes "h < 64" and "k < 64"
  shows "(h + k) mod E1000_TX_DESC_ARRAY_SIZE \<notin> set (ring_ids h k)"
proof
  assume "(h + k) mod E1000_TX_DESC_ARRAY_SIZE \<in> set (ring_ids h k)"
  then obtain j where "j < k" "(h + k) mod 64 = (h + j) mod 64" by (auto simp: ring_ids_def jos_consts)
  then show False using assms by (auto simp: mod_if split: if_splits)
qed

text \<open>A packet that fits its buffer leaves every other buffer alone.\<close>

lemma blit_own_buffer:
  assumes "blit sz a (t * 1518) bs = Some a'" and "length bs \<le> 1518"
  shows "i \<noteq> t \<Longrightarrow> k < 1518 \<Longrightarrow> a' (i * 1518 + k) = a (i * 1518 + k)"
    and "k < length bs \<Longrightarrow> a' (t * 1518 + k) = bs ! k"
proof -
  have a': "a' = (\<lambda>j. if t * 1518 \<le> j \<and> j < t * 1518 + length bs then bs ! (j - t * 1518) else a j)"
    using assms(1) by (simp add: blit_def split: if_splits)
  show "k < length bs \<Longrightarrow> a' (t * 1518 + k) = bs ! k" by (simp add: a')
  assume "i \<noteq> t" "k < 1518"
  then have "\<not> (t * 1518 \<le> i * 1518 + k \<and> i * 1518 + k < t * 1518 + length bs)"
    using assms(2) by (cases "i < t") (auto dest!: Suc_leI)
  then show "a' (i * 1518 + k) = a (i * 1518 + k)" by (auto simp: a')
qed

lemma DD_clear: "(w AND NOT E1000_TXD_STAT_DD) AND E1000_TXD_STAT_DD = 0"
  by (simp add: and.assoc)

lemma transmit_result:
  assumes "tx_ring_ok n" and "length bs \<le> 1518"
  obtains buf where "blit (64 * 1518) (e1000_tx_packet_buf n) (tx_index n * 1518) bs = Some buf"
    and "e1000_transmit (Some bs) n = Some (0, set_reg E1000_TDT (word_of_nat ((tx_index n + 1) mod 64))
      (n\<lparr>e1000_tx_packet_buf := buf, e1000_tx_desc_array := (e1000_tx_desc_array n)(tx_index n :=
          (e1000_tx_desc_array n (tx_index n))\<lparr>
             tx_status := tx_status (e1000_tx_desc_array n (tx_index n)) AND NOT E1000_TXD_STAT_DD,
             tx_length := word_of_nat (length bs)\<rparr>)\<rparr>))"
proof -
  let ?t = "tx_index n"
  have b: "tx_head n < 64" "?t < 64" using assms(1) by (auto simp: tx_ring_ok_def jos_consts)
  have "?t \<notin> set (ring_ids (tx_head n) (tx_len n))"
    using tail_not_in_ring [OF b(1), of "tx_len n"] tx_tail_pos [OF b] by (simp add: tx_len_def jos_consts)
  then have dd: "tx_status (e1000_tx_desc_array n ?t) AND E1000_TXD_STAT_DD \<noteq> 0"
    using assms(1) b(2) by (auto simp: tx_ring_ok_def jos_consts)
  have "?t * 1518 + length bs \<le> 64 * 1518" using b(2) assms(2) by simp
  then obtain buf where buf: "blit (64 * 1518) (e1000_tx_packet_buf n) (?t * 1518) bs = Some buf"
    by (simp add: blit_def)
  then show thesis
    using that dd b(2) by (simp add: e1000_transmit_def Let_def E1000_TX_DESC_ARRAY_SIZE_def E1000_TX_DESC_BUF_MTU_def)
qed

lemma set_reg_TDT [simp]:
  "tx_head (set_reg E1000_TDT v n) = tx_head n" "tx_index (set_reg E1000_TDT v n) = unat v"
  "e1000_tx_packet_buf (set_reg E1000_TDT v n) = e1000_tx_packet_buf n"
  "e1000_tx_desc_array (set_reg E1000_TDT v n) = e1000_tx_desc_array n"
  by (simp_all add: set_reg_def tx_head_def tx_index_def LOCATION_def jos_consts)

lemma tx_head_frame [simp]:
  "tx_head (n\<lparr>e1000_tx_packet_buf := a, e1000_tx_desc_array := b\<rparr>) = tx_head n"
  by (simp add: tx_head_def)

lemma transmit_queue:
  assumes ok: "tx_ring_ok n" and room: "tx_len n < 63" and bs: "length bs \<le> 1518"
  shows "\<exists>n'. e1000_transmit (Some bs) n = Some (0, n') \<and> tx_queue n' = tx_queue n @ [bs] \<and> tx_ring_ok n'"
proof -
  let ?t = "tx_index n" and ?h = "tx_head n"
  have b: "?h < 64" "?t < 64" using ok by (auto simp: tx_ring_ok_def jos_consts)
  obtain buf where buf: "blit (64 * 1518) (e1000_tx_packet_buf n) (?t * 1518) bs = Some buf"
    and tr: "e1000_transmit (Some bs) n = Some (0, set_reg E1000_TDT (word_of_nat ((?t + 1) mod 64))
      (n\<lparr>e1000_tx_packet_buf := buf, e1000_tx_desc_array := (e1000_tx_desc_array n)(?t :=
          (e1000_tx_desc_array n ?t)\<lparr>
             tx_status := tx_status (e1000_tx_desc_array n ?t) AND NOT E1000_TXD_STAT_DD,
             tx_length := word_of_nat (length bs)\<rparr>)\<rparr>))" (is "_ = Some (0, ?n')")
    using transmit_result [OF ok bs] by blast
  have th: "tx_head ?n' = ?h" "tx_index ?n' = (?t + 1) mod 64"
    by (simp_all add: unat_of_nat)
  have len: "tx_len ?n' = Suc (tx_len n)"
    using room b unfolding tx_len_def th E1000_TX_DESC_ARRAY_SIZE_def
    by (cases "?h \<le> ?t") (auto simp: mod_if split: if_splits)
  have pos: "(?h + tx_len n) mod E1000_TX_DESC_ARRAY_SIZE = ?t"
    using tx_tail_pos [OF b] by (simp add: jos_consts)
  have ids: "ring_ids ?h (tx_len ?n') = ring_ids ?h (tx_len n) @ [?t]"
    unfolding len ring_ids_Suc pos by simp
  have tin: "?t \<notin> set (ring_ids ?h (tx_len n))"
    using tail_not_in_ring [OF b(1), of "tx_len n"] pos room by simp
  have old: "tx_packet ?n' i = tx_packet n i" if "i \<noteq> ?t" "i < 64" for i
  proof -
    have "unat (tx_length (e1000_tx_desc_array n i)) \<le> 1518" using ok that by (simp add: tx_ring_ok_def jos_consts)
    then show ?thesis using blit_own_buffer(1) [OF buf bs that(1)] that(1)
      by (simp add: tx_packet_def E1000_TX_DESC_BUF_MTU_def)
  qed
  have new: "tx_packet ?n' ?t = bs"
    using blit_own_buffer(2) [OF buf bs] bs
    by (intro nth_equalityI) (simp_all add: tx_packet_def E1000_TX_DESC_BUF_MTU_def unat_of_nat)
  have lt: "i < 64" if "i \<in> set (ring_ids ?h (tx_len n))" for i
    using that by (auto simp: ring_ids_def jos_consts)
  have "map (tx_packet ?n') (ring_ids ?h (tx_len n)) = map (tx_packet n) (ring_ids ?h (tx_len n))"
    by (rule map_cong [OF refl], rule old) (use tin lt in blast)+
  then have "tx_queue ?n' = tx_queue n @ [bs]"
    unfolding tx_queue_def th(1) ids using new by simp
  moreover have "tx_ring_ok ?n'"
    unfolding tx_ring_ok_def th(1) ids using ok b tin bs th(2)
    by (auto simp: tx_ring_ok_def DD_clear E1000_TX_DESC_ARRAY_SIZE_def E1000_TX_DESC_BUF_MTU_def unat_of_nat)
  ultimately show ?thesis using tr by blast
qed

text \<open>
  A ring that holds 63 packets has one free descriptor left.  Filling it moves the tail onto
  the head, and the ring looks empty: the 64 packets are no longer in the queue.
\<close>

lemma transmit_fills_ring:
  assumes ok: "tx_ring_ok n" and full: "tx_len n = 63" and bs: "length bs \<le> 1518"
  shows "\<exists>n'. e1000_transmit (Some bs) n = Some (0, n') \<and> tx_queue n' = []"
proof -
  have b: "tx_head n < 64" "tx_index n < 64" using ok by (auto simp: tx_ring_ok_def jos_consts)
  have "(tx_index n + 1) mod 64 = tx_head n"
  proof (cases "tx_head n \<le> tx_index n")
    case True
    then have "tx_len n = tx_index n - tx_head n" using b by (simp add: tx_len_def jos_consts mod_if)
    then have "tx_head n = 0" "tx_index n = 63" using full b by auto
    then show ?thesis by simp
  next
    case False
    then have "tx_len n = tx_index n + 64 - tx_head n" using b by (simp add: tx_len_def jos_consts)
    then show ?thesis using full b False by simp
  qed
  moreover obtain m where "e1000_transmit (Some bs) n =
      Some (0, set_reg E1000_TDT (word_of_nat ((tx_index n + 1) mod 64)) m)" "tx_head m = tx_head n"
    using transmit_result [OF ok bs] tx_head_frame by metis
  moreover have "tx_queue (set_reg E1000_TDT (word_of_nat (tx_head n)) m) = []"
    using b(1) calculation(3) by (simp add: tx_queue_def tx_len_def ring_ids_def E1000_TX_DESC_ARRAY_SIZE_def unat_of_nat)
  ultimately show ?thesis by auto
qed

text \<open>
  A packet longer than its buffer is not refused: its tail is written over the buffer of the
  next descriptor.
\<close>

lemma transmit_overruns:
  assumes "tx_ring_ok n" and "tx_index n < 63" and "length bs = 1519"
    and "tx_status (e1000_tx_desc_array n (tx_index n)) AND E1000_TXD_STAT_DD \<noteq> 0"
  shows "\<exists>n'. e1000_transmit (Some bs) n = Some (0, n') \<and>
     e1000_tx_packet_buf n' ((tx_index n + 1) * E1000_TX_DESC_BUF_MTU) = bs ! 1518"
  using assms
  by (simp add: e1000_transmit_def blit_def Let_def E1000_TX_DESC_ARRAY_SIZE_def E1000_TX_DESC_BUF_MTU_def)

section \<open>Properties\<close>

definition demo_nic :: e1000_state where
  "demo_nic = \<lparr>e1000 = (\<lambda>_. 0), e1000_tx_desc_array = (\<lambda>_. zero_tx_desc), e1000_tx_packet_buf = (\<lambda>_. 0),
     e1000_rx_desc_array = (\<lambda>_. zero_rx_desc), e1000_rx_packet_buf = (\<lambda>_. 0), rx_next = 0,
     tx_pa = 0, txbuf_pa = 0x1000, rx_pa = 0x40000, rxbuf_pa = 0x50000\<rparr>"

lemma transmit_init_regs:
  "tx_head (e1000_transmit_init n) = 0" "tx_index (e1000_transmit_init n) = 0"
  by (simp_all add: e1000_transmit_init_def tx_head_def tx_index_def set_reg_def LOCATION_def Let_def jos_consts)

lemma transmit_init_desc:
  "i < 64 \<Longrightarrow> tx_status (e1000_tx_desc_array (e1000_transmit_init n) i) = E1000_TXD_STAT_DD"
  "i < 64 \<Longrightarrow> tx_length (e1000_tx_desc_array (e1000_transmit_init n) i) = 0"
  by (simp_all add: e1000_transmit_init_def set_reg_def Let_def zero_tx_desc_def E1000_TX_DESC_ARRAY_SIZE_def)

lemma transmit_init_ring: "tx_ring_ok (e1000_transmit_init n)" "tx_len (e1000_transmit_init n) = 0"
proof -
  show len: "tx_len (e1000_transmit_init n) = 0" by (simp add: tx_len_def transmit_init_regs)
  have "E1000_TXD_STAT_DD AND E1000_TXD_STAT_DD \<noteq> 0" by (simp add: jos_consts)
  then show "tx_ring_ok (e1000_transmit_init n)"
    unfolding tx_ring_ok_def len
    by (auto simp: transmit_init_regs transmit_init_desc ring_ids_def E1000_TX_DESC_ARRAY_SIZE_def)
qed

text \<open>
  (C12) The transmit ring refines a queue: as long as the ring has two free descriptors, sending a
  packet that fits an Ethernet frame succeeds, appends exactly that packet to the packets the
  card has still to send, and keeps the ring well-formed.
\<close>

theorem e1000_transmit_enqueues:
  assumes "tx_ring_ok n" and "length (tx_queue n) < 63" and "length bs \<le> E1000_TX_DESC_BUF_MTU"
  shows "\<exists>n'. e1000_transmit (Some bs) n = Some (0, n') \<and> tx_queue n' = tx_queue n @ [bs] \<and> tx_ring_ok n'"
  using assms transmit_queue by (simp add: tx_queue_def ring_ids_def E1000_TX_DESC_BUF_MTU_def)

theorem e1000_transmit_enqueues_witness:
  "\<exists>n'. e1000_transmit (Some [1, 2, 3]) (e1000_transmit_init demo_nic) = Some (0, n') \<and>
     tx_queue n' = tx_queue (e1000_transmit_init demo_nic) @ [[1, 2, 3]] \<and> tx_ring_ok n'"
  by (rule e1000_transmit_enqueues)
    (simp_all add: transmit_init_ring tx_queue_def ring_ids_def E1000_TX_DESC_BUF_MTU_def)

end
