(* ===== verification/KState.thy ===== *)
theory KState
  imports Mmu Printfmt E1000
begin

text \<open>
  The data of the kernel: trap frames (\<^verbatim>\<open>inc/trap.h\<close>), environments (\<^verbatim>\<open>inc/env.h\<close>), page
  descriptors (\<^verbatim>\<open>inc/memlayout.h\<close>), and one record of the kernel's global variables.

  Pointers into an array are indices: \<^verbatim>\<open>struct PageInfo *\<close> is a frame number,
  \<^verbatim>\<open>struct Env *\<close> an index into \<^verbatim>\<open>envs\<close>, a page-table or page-directory pointer the frame
  the table occupies; NULL is \<open>None\<close>.  Physical memory is \<open>pmem\<close>: frame number, index of a
  32-bit word inside the frame, word.
\<close>

section \<open>Trap frames (inc/trap.h)\<close>

record PushRegs =
  reg_edi :: u32
  reg_esi :: u32
  reg_ebp :: u32
  reg_oesp :: u32
  reg_ebx :: u32
  reg_edx :: u32
  reg_ecx :: u32
  reg_eax :: u32

record Trapframe =
  tf_regs :: PushRegs
  tf_es :: u16
  tf_padding1 :: u16
  tf_ds :: u16
  tf_padding2 :: u16
  tf_trapno :: u32
  tf_err :: u32
  tf_eip :: u32
  tf_cs :: u16
  tf_padding3 :: u16
  tf_eflags :: u32
  tf_esp :: u32
  tf_ss :: u16
  tf_padding4 :: u16

definition zero_regs :: PushRegs where
  "zero_regs = \<lparr>reg_edi = 0, reg_esi = 0, reg_ebp = 0, reg_oesp = 0, reg_ebx = 0, reg_edx = 0,
    reg_ecx = 0, reg_eax = 0\<rparr>"

text \<open>What \<^verbatim>\<open>memset(&e->env_tf, 0, sizeof(e->env_tf))\<close> leaves.\<close>

definition zero_tf :: Trapframe where
  "zero_tf = \<lparr>tf_regs = zero_regs, tf_es = 0, tf_padding1 = 0, tf_ds = 0, tf_padding2 = 0,
    tf_trapno = 0, tf_err = 0, tf_eip = 0, tf_cs = 0, tf_padding3 = 0, tf_eflags = 0, tf_esp = 0,
    tf_ss = 0, tf_padding4 = 0\<rparr>"

section \<open>Environments (inc/env.h)\<close>

definition LOG2NENV :: nat where [jos_consts]: "LOG2NENV = 10"
definition NENV :: nat where [jos_consts]: "NENV = 1024"

definition ENVX :: "u32 \<Rightarrow> nat" where
  "ENVX envid = unat (envid AND 0x3FF)"

definition ENV_FREE :: u32 where [jos_consts]: "ENV_FREE = 0"
definition ENV_DYING :: u32 where [jos_consts]: "ENV_DYING = 1"
definition ENV_RUNNABLE :: u32 where [jos_consts]: "ENV_RUNNABLE = 2"
definition ENV_RUNNING :: u32 where [jos_consts]: "ENV_RUNNING = 3"
definition ENV_NOT_RUNNABLE :: u32 where [jos_consts]: "ENV_NOT_RUNNABLE = 4"

datatype EnvType = ENV_TYPE_USER | ENV_TYPE_FS | ENV_TYPE_NS

record Env =
  env_tf :: Trapframe
  env_link :: "nat option"
  env_id :: u32
  env_parent_id :: u32
  env_type :: EnvType
  env_status :: u32
  env_runs :: u32
  env_cpunum :: u32
  env_pgdir :: "nat option"
  env_pgfault_upcall :: u32
  env_ipc_recving :: bool
  env_ipc_dstva :: u32
  env_ipc_value :: u32
  env_ipc_from :: u32
  env_ipc_perm :: u32

section \<open>Page descriptors and the kernel's globals\<close>

record PageInfo =
  pp_link :: "nat option"
  pp_ref :: u16

text \<open>
  The globals of \<^verbatim>\<open>kern/pmap.c\<close>, \<^verbatim>\<open>kern/env.c\<close> and \<^verbatim>\<open>kern/time.c\<close>, and the hardware registers
  they drive, as one CPU sees them: \<open>cr3\<close> is the frame of the page directory in force,
  \<open>invlpgs\<close> the addresses given to \<^verbatim>\<open>invlpg\<close> (latest first), \<open>klock\<close> whether this CPU
  holds the big kernel lock, \<open>cr2\<close> the address of the last page fault, \<open>eflags\<close> and \<open>ebp\<close>
  the registers of that name, \<open>cons\<close> the console's state, \<open>nic\<close> the network driver's state, and
  \<open>syms\<close> the symbols the linker defines.
\<close>

record ksyms =
  sym_start :: u32
  sym_entry :: u32
  sym_etext :: u32
  sym_edata :: u32
  STAB_BEGIN :: u32
  STAB_END :: u32
  STABSTR_BEGIN :: u32
  STABSTR_END :: u32

record kstate =
  npages :: nat
  npages_basemem :: nat
  pages :: "nat \<Rightarrow> PageInfo"
  page_free_list :: "nat option"
  pmem :: "nat \<Rightarrow> nat \<Rightarrow> u32"
  kern_pgdir :: nat
  kend :: u32
  nextfree :: u32
  mmio_base :: u32
  user_mem_check_addr :: u32
  envs_kva :: u32
  pages_kva :: u32
  envs :: "nat \<Rightarrow> Env"
  env_free_list :: "nat option"
  curenv :: "nat option"
  cpunum :: u32
  cpu_status :: u32
  klock :: bool
  cr3 :: nat
  invlpgs :: "u32 list"
  ticks :: u32
  cr2 :: u32
  eflags :: u32
  ebp :: u32
  last_tf :: u32
  panicstr :: bool
  cons :: console
  nic :: e1000_state
  syms :: ksyms

abbreviation upd_page :: "nat \<Rightarrow> (PageInfo \<Rightarrow> PageInfo) \<Rightarrow> kstate \<Rightarrow> kstate" where
  "upd_page pp g s \<equiv> s\<lparr>pages := (pages s)(pp := g (pages s pp))\<rparr>"

abbreviation upd_env :: "nat \<Rightarrow> (Env \<Rightarrow> Env) \<Rightarrow> kstate \<Rightarrow> kstate" where
  "upd_env e g s \<equiv> s\<lparr>envs := (envs s)(e := g (envs s e))\<rparr>"

abbreviation set_word :: "nat \<Rightarrow> nat \<Rightarrow> u32 \<Rightarrow> kstate \<Rightarrow> kstate" where
  "set_word f i w s \<equiv> s\<lparr>pmem := (pmem s)(f := (pmem s f)(i := w))\<rparr>"

text \<open>\<^verbatim>\<open>cprintf\<close> in the kernel.\<close>

abbreviation nl :: string where "nl \<equiv> [CHR 0x0A]"

definition kprintf :: "string \<Rightarrow> va list \<Rightarrow> kstate \<Rightarrow> kstate option" where
  "kprintf fmt ap s = map_option (\<lambda>c. s\<lparr>cons := c\<rparr>) (cprintf fmt ap (cons s))"

definition vstr :: "string \<Rightarrow> va" where
  "vstr cs = VStr (Some (map byte cs))"

text \<open>The descriptors link into lists the way the shared interface asks.\<close>

interpretation pl: linked_nodes pp_link "\<lambda>l n. n\<lparr>pp_link := l\<rparr>"
  by unfold_locales simp

interpretation el: linked_nodes env_link "\<lambda>l n. n\<lparr>env_link := l\<rparr>"
  by unfold_locales simp

section \<open>A small machine\<close>

text \<open>
  Sixteen frames of zeroed memory, frame 1 an empty page directory, frames 2 and 3 free; no
  environment exists yet.  Used to evaluate the definitions on a concrete state.
\<close>

definition demo_env :: Env where
  "demo_env = \<lparr>env_tf = zero_tf, env_link = None, env_id = 0, env_parent_id = 0,
     env_type = ENV_TYPE_USER, env_status = ENV_FREE, env_runs = 0, env_cpunum = 0,
     env_pgdir = None, env_pgfault_upcall = 0, env_ipc_recving = False, env_ipc_dstva = 0,
     env_ipc_value = 0, env_ipc_from = 0, env_ipc_perm = 0\<rparr>"

definition demo_syms :: ksyms where
  "demo_syms = \<lparr>sym_start = 0x0010000C, sym_entry = 0xF010000C, sym_etext = 0xF0104000, sym_edata = 0xF0110000,
     STAB_BEGIN = 0xF0105000, STAB_END = 0xF0105000, STABSTR_BEGIN = 0xF0106000, STABSTR_END = 0xF0106000\<rparr>"

definition demo :: kstate where
  "demo = \<lparr>npages = 16, npages_basemem = 8,
     pages = (\<lambda>p. \<lparr>pp_link = (if p = 2 then Some 3 else None),
                   pp_ref = (if p = 2 \<or> p = 3 then 0 else 1)\<rparr>),
     page_free_list = Some 2, pmem = (\<lambda>_ _. 0), kern_pgdir = 1, kend = 0xF0100000,
     nextfree = 0, mmio_base = MMIOBASE, user_mem_check_addr = 0, envs_kva = 0xF0200000,
     pages_kva = 0xF0180000, envs = (\<lambda>_. demo_env), env_free_list = None, curenv = None,
     cpunum = 0, cpu_status = 0, klock = True, cr3 = 1, invlpgs = [], ticks = 0,
     cr2 = 0, eflags = 0, ebp = 0, last_tf = 0, panicstr = False, cons = demo_console, nic = demo_nic,
     syms = demo_syms\<rparr>"

lemma demo_sel [simp]:
  "npages demo = 16" "pages demo p = \<lparr>pp_link = (if p = 2 then Some 3 else None),
                   pp_ref = (if p = 2 \<or> p = 3 then 0 else 1)\<rparr>"
  "page_free_list demo = Some 2" "pmem demo = (\<lambda>_ _. 0)" "kern_pgdir demo = 1"
  "curenv demo = None" "envs demo = (\<lambda>_. demo_env)" "klock demo = True"
  "mmio_base demo = MMIOBASE" "invlpgs demo = []" "kend demo = 0xF0100000" "nextfree demo = 0"
  "npages_basemem demo = 8" "envs_kva demo = 0xF0200000" "env_free_list demo = None"
  by (simp_all add: demo_def)

end
