(* ===== verification/Pmap.thy ===== *)
theory Pmap
  imports KState
begin

text \<open>
  Physical pages and page tables, \<^verbatim>\<open>kern/pmap.c\<close>: the boot-time allocator, the free list of
  frames with its reference counts, the two-level page tables that the frames hold, the
  mapping operations and the check of user pointers.  Each definition translates the C
  function of the same name; \<open>None\<close> is a panic.
\<close>

section \<open>Memory detection and the boot allocator\<close>

definition NVRAM_BASELO :: nat where [jos_consts]: "NVRAM_BASELO = 0xe + 7"
definition NVRAM_EXTLO :: nat where [jos_consts]: "NVRAM_EXTLO = 0xe + 9"
definition NVRAM_EXT16LO :: nat where [jos_consts]: "NVRAM_EXT16LO = 0xe + 38"

text \<open>\<open>mc\<close> is the CMOS clock chip, read one byte at a time.\<close>

definition nvram_read :: "(nat \<Rightarrow> u8) \<Rightarrow> nat \<Rightarrow> u32" where
  "nvram_read mc r = ucast (mc r) OR push_bit 8 (ucast (mc (r + 1)))"

definition i386_detect_memory :: "(nat \<Rightarrow> u8) \<Rightarrow> kstate \<Rightarrow> kstate option" where
  "i386_detect_memory mc s =
     (let basemem = nvram_read mc NVRAM_BASELO;
          extmem = nvram_read mc NVRAM_EXTLO;
          ext16mem = nvram_read mc NVRAM_EXT16LO * 64;
          totalmem = (if ext16mem \<noteq> 0 then 16 * 1024 + ext16mem
                      else if extmem \<noteq> 0 then 1 * 1024 + extmem
                      else basemem)
      in kprintf (''Physical memory: %uK available, base = %uK, extended = %uK'' @ nl)
           [VInt totalmem, VInt basemem, VInt (totalmem - basemem)]
           (s\<lparr>npages := unat (totalmem div (PGSIZE div 1024)),
              npages_basemem := unat (basemem div (PGSIZE div 1024))\<rparr>))"

definition boot_alloc :: "u32 \<Rightarrow> kstate \<Rightarrow> (u32 \<times> kstate) option" where
  "boot_alloc n s =
     (let s0 = (if nextfree s = 0 then s\<lparr>nextfree := ROUNDUP (kend s) PGSIZE\<rparr> else s);
          result = nextfree s0;
          s1 = (if n > 0 then s0\<lparr>nextfree := ROUNDUP (nextfree s0 + n) PGSIZE\<rparr> else s0)
      in if nextfree s1 \<ge> KERNBASE + PTSIZE then None else Some (result, s1))"

section \<open>The free list of physical pages\<close>

definition ALLOC_ZERO :: u32 where [jos_consts]: "ALLOC_ZERO = 1"

definition sizeof_Env :: u32 where [jos_consts]: "sizeof_Env = 124"
definition sizeof_PageInfo :: u32 where [jos_consts]: "sizeof_PageInfo = 8"

definition page_init_free :: "nat \<Rightarrow> kstate \<Rightarrow> kstate" where
  "page_init_free i s =
     s\<lparr>pages := (pages s)(i := (pages s i)\<lparr>pp_ref := 0, pp_link := page_free_list s\<rparr>),
       page_free_list := Some i\<rparr>"

definition page_init_used :: "nat \<Rightarrow> kstate \<Rightarrow> kstate" where
  "page_init_used i s = upd_page i (\<lambda>p. p\<lparr>pp_ref := 1, pp_link := None\<rparr>) s"

definition page_init_base :: "nat \<Rightarrow> kstate \<Rightarrow> kstate" where
  "page_init_base i s =
     (if i = unat (MPENTRY_PADDR div PGSIZE) then page_init_used i s else page_init_free i s)"

definition page_init_med :: "kstate \<Rightarrow> nat" where
  "page_init_med s =
     unat (word_of_int
       (c_div (sint (ROUNDUP (envs_kva s + sizeof_Env * word_of_nat NENV - 0xf0000000) PGSIZE))
         (sint PGSIZE)) :: u32)"

definition page_init :: "kstate \<Rightarrow> kstate" where
  "page_init s =
     (let s1 = page_init_used 0 s;
          s2 = fold page_init_base [1..<npages_basemem s] s1
      in fold page_init_free [page_init_med s..<npages s] s2)"

text \<open>\<^verbatim>\<open>memset\<close> of a whole frame.\<close>

definition memset_page :: "nat \<Rightarrow> u32 \<Rightarrow> kstate \<Rightarrow> kstate" where
  "memset_page f w s = s\<lparr>pmem := (pmem s)(f := (\<lambda>_. w))\<rparr>"

definition kva_frame :: "u32 \<Rightarrow> nat" where
  "kva_frame kva = unat (PGNUM (kva - KERNBASE))"

definition page_alloc :: "u32 \<Rightarrow> kstate \<Rightarrow> (nat option \<times> kstate) option" where
  "page_alloc alloc_flags s =
     (case page_free_list s of
        Some ret \<Rightarrow>
          (let s1 = s\<lparr>page_free_list := pp_link (pages s ret)\<rparr>;
               s2 = upd_page ret (\<lambda>p. p\<lparr>pp_link := None\<rparr>) s1
           in if alloc_flags AND ALLOC_ZERO \<noteq> 0
              then do { kva \<leftarrow> page2kva (npages s2) ret;
                        Some (Some ret, memset_page (kva_frame kva) 0 s2) }
              else Some (Some ret, s2))
      | None \<Rightarrow> Some (None, s))"

definition page_free :: "nat \<Rightarrow> kstate \<Rightarrow> kstate option" where
  "page_free pp s =
     (if pp_link (pages s pp) \<noteq> None \<or> pp_ref (pages s pp) \<noteq> 0 then None
      else Some ((upd_page pp (\<lambda>p. p\<lparr>pp_link := page_free_list s\<rparr>) s)\<lparr>page_free_list := Some pp\<rparr>))"

definition page_decref :: "nat \<Rightarrow> kstate \<Rightarrow> kstate option" where
  "page_decref pp s =
     (let s1 = upd_page pp (\<lambda>p. p\<lparr>pp_ref := pp_ref p - 1\<rparr>) s
      in if pp_ref (pages s1 pp) = 0 then page_free pp s1 else Some s1)"

section \<open>Page tables\<close>

definition pgdir_walk ::
  "nat \<Rightarrow> u32 \<Rightarrow> bool \<Rightarrow> kstate \<Rightarrow> ((nat \<times> nat) option \<times> kstate) option" where
  "pgdir_walk pgdir va create s =
     (let pdx = unat (PDX va); ptx = unat (PTX va); pde = pmem s pgdir pdx
      in if pde AND PTE_P \<noteq> 0
         then do { pte \<leftarrow> KADDR (npages s) (PTE_ADDR pde);
                   Some (Some (kva_frame pte, ptx), s) }
         else if \<not> create then Some (None, s)
         else do { (pp, s1) \<leftarrow> page_alloc ALLOC_ZERO s;
                   case pp of
                     None \<Rightarrow> Some (None, s1)
                   | Some pp \<Rightarrow>
                       do { pte \<leftarrow> page2kva (npages s1) pp;
                            pa \<leftarrow> PADDR pte;
                            let s2 = upd_page pp (\<lambda>p. p\<lparr>pp_ref := pp_ref p + 1\<rparr>) s1;
                                s3 = set_word pgdir pdx (((pa OR PTE_P) OR PTE_W) OR PTE_U) s2
                            in Some (Some (kva_frame pte, ptx), s3) } })"

fun boot_map_loop :: "nat \<Rightarrow> nat \<Rightarrow> u32 \<Rightarrow> u32 \<Rightarrow> u32 \<Rightarrow> kstate \<Rightarrow> kstate option" where
  "boot_map_loop pgdir 0 va pa perm s = Some s"
| "boot_map_loop pgdir (Suc n) va pa perm s =
     do { (pte, s1) \<leftarrow> pgdir_walk pgdir va True s;
          case pte of
            None \<Rightarrow> None
          | Some (f, i) \<Rightarrow>
              boot_map_loop pgdir n (va + PGSIZE) (pa + PGSIZE) perm
                (set_word f i ((pa OR perm) OR PTE_P) s1) }"

definition boot_map_region ::
  "nat \<Rightarrow> u32 \<Rightarrow> u32 \<Rightarrow> u32 \<Rightarrow> u32 \<Rightarrow> kstate \<Rightarrow> kstate option" where
  "boot_map_region pgdir va sz pa perm s =
     (let page_num = unat (sz div PGSIZE) + (if sz mod PGSIZE \<noteq> 0 then 1 else 0)
      in boot_map_loop pgdir page_num va pa perm s)"

text \<open>The frame mapped at \<open>va\<close>, and where its entry is (what \<^verbatim>\<open>pte_store\<close> receives).\<close>

definition page_lookup ::
  "nat \<Rightarrow> u32 \<Rightarrow> kstate \<Rightarrow> (nat option \<times> (nat \<times> nat) option) option" where
  "page_lookup pgdir va s =
     do { (pte, _) \<leftarrow> pgdir_walk pgdir va False s;
          case pte of
            None \<Rightarrow> Some (None, None)
          | Some (f, i) \<Rightarrow>
              if pmem s f i AND PTE_P \<noteq> 0
              then do { pp \<leftarrow> pa2page (npages s) (PTE_ADDR (pmem s f i));
                        Some (Some pp, Some (f, i)) }
              else Some (None, Some (f, i)) }"

definition tlb_invalidate :: "nat \<Rightarrow> u32 \<Rightarrow> kstate \<Rightarrow> kstate" where
  "tlb_invalidate pgdir va s =
     (if (case curenv s of None \<Rightarrow> True | Some e \<Rightarrow> env_pgdir (envs s e) = Some pgdir)
      then s\<lparr>invlpgs := va # invlpgs s\<rparr> else s)"

definition page_remove :: "nat \<Rightarrow> u32 \<Rightarrow> kstate \<Rightarrow> kstate option" where
  "page_remove pgdir va s =
     do { (pp, pte_store) \<leftarrow> page_lookup pgdir va s;
          case (pp, pte_store) of
            (Some pp, Some (f, i)) \<Rightarrow>
              do { s1 \<leftarrow> page_decref pp s;
                   Some (tlb_invalidate pgdir va (set_word f i 0 s1)) }
          | _ \<Rightarrow> Some s }"

definition page_insert :: "nat \<Rightarrow> nat \<Rightarrow> u32 \<Rightarrow> u32 \<Rightarrow> kstate \<Rightarrow> (int \<times> kstate) option" where
  "page_insert pgdir pp va perm s =
     do { (pte, s1) \<leftarrow> pgdir_walk pgdir va True s;
          case pte of
            None \<Rightarrow> Some (- E_NO_MEM, s1)
          | Some (f, i) \<Rightarrow>
              let entry = (page2pa pp OR perm) OR PTE_P in
              if pmem s1 f i AND PTE_P \<noteq> 0
              then if PTE_ADDR (pmem s1 f i) = page2pa pp
                   then Some (0, set_word f i entry s1)
                   else do { s2 \<leftarrow> page_remove pgdir va s1;
                             let s3 = upd_page pp (\<lambda>p. p\<lparr>pp_ref := pp_ref p + 1\<rparr>) s2
                             in Some (0, set_word f i entry s3) }
              else let s2 = set_word f i entry s1
                   in Some (0, upd_page pp (\<lambda>p. p\<lparr>pp_ref := pp_ref p + 1\<rparr>) s2) }"

definition mmio_map_region :: "u32 \<Rightarrow> u32 \<Rightarrow> kstate \<Rightarrow> (u32 \<times> kstate) option" where
  "mmio_map_region pa n s =
     (let sz = ROUNDUP n PGSIZE; ret = mmio_base s
      in if mmio_base s + sz < MMIOLIM
         then do { s1 \<leftarrow> boot_map_region (kern_pgdir s) (mmio_base s) sz pa
                          ((PTE_PCD OR PTE_PWT) OR PTE_W) s;
                   Some (ret, s1\<lparr>mmio_base := mmio_base s1 + sz\<rparr>) }
         else None)"

section \<open>Checking user pointers\<close>

text \<open>
  The loop of \<^verbatim>\<open>user_mem_check\<close>; the counter bounds the number of pages, and both ends are
  page-aligned, so it is never exhausted before \<open>begin\<close> reaches \<open>fin\<close>.
\<close>

fun user_mem_check_loop ::
  "nat \<Rightarrow> nat \<Rightarrow> u32 \<Rightarrow> u32 \<Rightarrow> u32 \<Rightarrow> u32 \<Rightarrow> kstate \<Rightarrow> (int \<times> kstate) option" where
  "user_mem_check_loop 0 pgdir begin fin va perm s = Some (0, s)"
| "user_mem_check_loop (Suc n) pgdir begin fin va perm s =
     (if \<not> begin < fin then Some (0, s)
      else do { (pte, _) \<leftarrow> pgdir_walk pgdir begin False s;
                if begin > ULIM \<or> pmem s pgdir (unat (PDX begin)) AND perm = 0
                   \<or> (case pte of None \<Rightarrow> True | Some (f, i) \<Rightarrow> pmem s f i AND perm = 0)
                then Some (- E_FAULT, s\<lparr>user_mem_check_addr := max begin va\<rparr>)
                else user_mem_check_loop n pgdir (begin + PGSIZE) fin va perm s })"

definition user_mem_check :: "nat \<Rightarrow> u32 \<Rightarrow> u32 \<Rightarrow> u32 \<Rightarrow> kstate \<Rightarrow> (int \<times> kstate) option" where
  "user_mem_check env va len perm s =
     do { pgdir \<leftarrow> env_pgdir (envs s env);
          let begin = ROUNDDOWN va PGSIZE; fin = ROUNDUP (va + len) PGSIZE
          in user_mem_check_loop ((unat fin - unat begin) div 4096) pgdir begin fin va perm s }"

definition check_va2pa :: "nat \<Rightarrow> u32 \<Rightarrow> kstate \<Rightarrow> u32 option" where
  "check_va2pa pgdir va s =
     (let pde = pmem s pgdir (unat (PDX va))
      in if pde AND PTE_P = 0 then Some (NOT 0)
         else do { p \<leftarrow> KADDR (npages s) (PTE_ADDR pde);
                   let pte = pmem s (kva_frame p) (unat (PTX va))
                   in if pte AND PTE_P = 0 then Some (NOT 0) else Some (PTE_ADDR pte) })"

end
