(* ===== verification/Environment.thy ===== *)
theory Environment
  imports Pmap
begin

text \<open>
  Environments, \<^verbatim>\<open>kern/env.c\<close>, and the scheduler, \<^verbatim>\<open>kern/sched.c\<close>.  Functions that leave the
  kernel instead of returning (\<^verbatim>\<open>env_run\<close>, \<^verbatim>\<open>sched_yield\<close>, \<^verbatim>\<open>sched_halt\<close>) produce an \<open>exit\<close>;
  functions that may do either produce a \<open>flow\<close>.
\<close>

datatype exit = RunEnv nat | HaltCpu | Monitor

datatype 'a flow = Returns 'a | Leaves exit

section \<open>Lookup and allocation\<close>

definition ENVGENSHIFT :: nat where [jos_consts]: "ENVGENSHIFT = 12"

text \<open>The result code and what is stored through \<^verbatim>\<open>env_store\<close>.\<close>

definition envid2env :: "u32 \<Rightarrow> bool \<Rightarrow> kstate \<Rightarrow> (int \<times> nat option) option" where
  "envid2env envid checkperm s =
     (if envid = 0 then Some (0, curenv s)
      else let e = ENVX envid in
        if env_status (envs s e) = ENV_FREE \<or> env_id (envs s e) \<noteq> envid
        then Some (- E_BAD_ENV, None)
        else if checkperm \<and> Some e \<noteq> curenv s
        then (case curenv s of
                None \<Rightarrow> None
              | Some c \<Rightarrow> if env_parent_id (envs s e) \<noteq> env_id (envs s c)
                          then Some (- E_BAD_ENV, None) else Some (0, Some e))
        else Some (0, Some e))"

definition env_init_step :: "nat \<Rightarrow> kstate \<Rightarrow> kstate" where
  "env_init_step i s =
     s\<lparr>envs := (envs s)(i := (envs s i)\<lparr>env_id := 0, env_link := env_free_list s\<rparr>),
       env_free_list := Some i\<rparr>"

definition env_init :: "kstate \<Rightarrow> kstate" where
  "env_init s = fold env_init_step (rev [0..<NENV]) s"

definition env_setup_vm :: "nat \<Rightarrow> kstate \<Rightarrow> (int \<times> kstate) option" where
  "env_setup_vm e s =
     do { (p, s1) \<leftarrow> page_alloc ALLOC_ZERO s;
          case p of
            None \<Rightarrow> Some (- E_NO_MEM, s1)
          | Some p \<Rightarrow>
              do { let s2 = upd_page p (\<lambda>x. x\<lparr>pp_ref := pp_ref x + 1\<rparr>) s1;
                   kva \<leftarrow> page2kva (npages s2) p;
                   let pgdir = kva_frame kva;
                   let s3 = upd_env e (\<lambda>x. x\<lparr>env_pgdir := Some pgdir\<rparr>) s2;
                   let s4 = s3\<lparr>pmem := (pmem s3)(pgdir := pmem s3 (kern_pgdir s3))\<rparr>;
                   pa \<leftarrow> PADDR kva;
                   Some (0, set_word pgdir (unat (PDX UVPT)) ((pa OR PTE_P) OR PTE_U) s4) } }"

definition GD_KT :: u16 where [jos_consts]: "GD_KT = 0x08"
definition GD_UT :: u16 where [jos_consts]: "GD_UT = 0x18"
definition GD_UD :: u16 where [jos_consts]: "GD_UD = 0x20"

definition next_generation :: "u32 \<Rightarrow> u32" where
  "next_generation old =
     (let generation = (old + push_bit ENVGENSHIFT 1) AND NOT (word_of_nat NENV - 1)
      in if sint generation \<le> 0 then push_bit ENVGENSHIFT 1 else generation)"

definition fresh_tf :: Trapframe where
  "fresh_tf = zero_tf\<lparr>tf_ds := GD_UD OR 3, tf_es := GD_UD OR 3, tf_ss := GD_UD OR 3,
     tf_esp := USTACKTOP, tf_cs := GD_UT OR 3, tf_eflags := tf_eflags zero_tf OR FL_IF\<rparr>"

definition env_alloc :: "u32 \<Rightarrow> kstate \<Rightarrow> (int \<times> nat option \<times> kstate) option" where
  "env_alloc parent_id s =
     (case env_free_list s of
        None \<Rightarrow> Some (- E_NO_FREE_ENV, None, s)
      | Some e \<Rightarrow>
          do { (r, s1) \<leftarrow> env_setup_vm e s;
               if r < 0 then Some (r, None, s1)
               else
                 let s2 = upd_env e (\<lambda>x. x\<lparr>env_id := next_generation (env_id x) OR word_of_nat e,
                            env_parent_id := parent_id, env_type := ENV_TYPE_USER,
                            env_status := ENV_RUNNABLE, env_runs := 0, env_tf := fresh_tf,
                            env_pgfault_upcall := 0, env_ipc_recving := False\<rparr>) s1;
                     s3 = s2\<lparr>env_free_list := env_link (envs s2 e)\<rparr>
                 in Some (0, Some e, s3) })"

section \<open>Loading a program\<close>

text \<open>The loop of \<^verbatim>\<open>region_alloc\<close>; both ends are page-aligned, the counter is the distance.\<close>

fun region_alloc_loop :: "nat \<Rightarrow> nat \<Rightarrow> u32 \<Rightarrow> u32 \<Rightarrow> kstate \<Rightarrow> kstate option" where
  "region_alloc_loop 0 pgdir begin fin s = Some s"
| "region_alloc_loop (Suc n) pgdir begin fin s =
     (if \<not> begin < fin then Some s
      else do { (pp, s1) \<leftarrow> page_alloc 0 s;
                case pp of
                  None \<Rightarrow> None
                | Some pp \<Rightarrow>
                    do { (_, s2) \<leftarrow> page_insert pgdir pp begin (PTE_W OR PTE_U) s1;
                         region_alloc_loop n pgdir (begin + PGSIZE) fin s2 } })"

definition region_alloc :: "nat \<Rightarrow> u32 \<Rightarrow> u32 \<Rightarrow> kstate \<Rightarrow> kstate option" where
  "region_alloc e va len s =
     do { pgdir \<leftarrow> env_pgdir (envs s e);
          let begin = ROUNDDOWN va PGSIZE; fin = ROUNDUP (va + len) PGSIZE
          in region_alloc_loop ((unat fin - unat begin) div 4096) pgdir begin fin s }"

text \<open>
  A store by the kernel to the linear address \<open>va\<close> under the page directory in \<open>cr3\<close>, one
  byte.  It faults, and the kernel panics, when the page is not mapped or not writable.  From
  \<^verbatim>\<open>ULIM\<close> up lie the kernel's image, its stacks and devices, which are not part of \<open>pmem\<close>: what
  a store there does is not described, \<open>None\<close>.
\<close>

definition put_byte :: "u32 \<Rightarrow> u32 \<Rightarrow> u8 \<Rightarrow> u32" where
  "put_byte w k b =
     (w AND NOT (push_bit (8 * unat k) 0xFF)) OR push_bit (8 * unat k) (ucast b)"

definition kstore8 :: "u32 \<Rightarrow> u8 \<Rightarrow> kstate \<Rightarrow> kstate option" where
  "kstore8 va b s =
     (let pde = pmem s (cr3 s) (unat (PDX va));
          pte = pmem s (unat (PGNUM pde)) (unat (PTX va));
          f = unat (PGNUM pte); i = unat (PGOFF va) div 4
      in if ULIM \<le> va \<or> pde AND PTE_P = 0 \<or> pde AND PTE_W = 0 \<or> pte AND PTE_P = 0 \<or> pte AND PTE_W = 0
         then None
         else Some (set_word f i (put_byte (pmem s f i) (va AND 3) b) s))"

primrec kmemset :: "u32 \<Rightarrow> u8 \<Rightarrow> nat \<Rightarrow> kstate \<Rightarrow> kstate option" where
  "kmemset va b 0 s = Some s"
| "kmemset va b (Suc n) s = do { s1 \<leftarrow> kstore8 va b s; kmemset (va + 1) b n s1 }"

primrec kmemcpy :: "u32 \<Rightarrow> (u32 \<Rightarrow> u8) \<Rightarrow> u32 \<Rightarrow> nat \<Rightarrow> kstate \<Rightarrow> kstate option" where
  "kmemcpy va src ofs 0 s = Some s"
| "kmemcpy va src ofs (Suc n) s =
     do { s1 \<leftarrow> kstore8 va (src ofs) s; kmemcpy (va + 1) src (ofs + 1) n s1 }"

text \<open>Little-endian fields of the binary image.\<close>

definition get16 :: "(u32 \<Rightarrow> u8) \<Rightarrow> u32 \<Rightarrow> u16" where
  "get16 b ofs = ucast (b ofs) OR push_bit 8 (ucast (b (ofs + 1)))"

definition get32 :: "(u32 \<Rightarrow> u8) \<Rightarrow> u32 \<Rightarrow> u32" where
  "get32 b ofs = ((ucast (b ofs) OR push_bit 8 (ucast (b (ofs + 1))))
     OR push_bit 16 (ucast (b (ofs + 2)))) OR push_bit 24 (ucast (b (ofs + 3)))"

record Elf =
  e_magic :: u32
  e_entry :: u32
  e_phoff :: u32
  e_phnum :: u16

record Proghdr =
  p_type :: u32
  p_offset :: u32
  p_va :: u32
  p_filesz :: u32
  p_memsz :: u32

definition ELF_MAGIC :: u32 where [jos_consts]: "ELF_MAGIC = 0x464C457F"
definition ELF_PROG_LOAD :: u32 where [jos_consts]: "ELF_PROG_LOAD = 1"

definition read_Elf :: "(u32 \<Rightarrow> u8) \<Rightarrow> Elf" where
  "read_Elf b = \<lparr>e_magic = get32 b 0, e_entry = get32 b 24, e_phoff = get32 b 28,
     e_phnum = get16 b 44\<rparr>"

definition read_Proghdr :: "(u32 \<Rightarrow> u8) \<Rightarrow> u32 \<Rightarrow> Proghdr" where
  "read_Proghdr b ofs = \<lparr>p_type = get32 b ofs, p_offset = get32 b (ofs + 4),
     p_va = get32 b (ofs + 8), p_filesz = get32 b (ofs + 16), p_memsz = get32 b (ofs + 20)\<rparr>"

definition load_segment :: "nat \<Rightarrow> (u32 \<Rightarrow> u8) \<Rightarrow> Proghdr \<Rightarrow> kstate \<Rightarrow> kstate option" where
  "load_segment e binary ph s =
     (if p_type ph = ELF_PROG_LOAD
      then do { s1 \<leftarrow> region_alloc e (p_va ph) (p_memsz ph) s;
                s2 \<leftarrow> kmemset (p_va ph) 0 (unat (p_memsz ph)) s1;
                kmemcpy (p_va ph) binary (p_offset ph) (unat (p_filesz ph)) s2 }
      else Some s)"

definition load_icode :: "nat \<Rightarrow> (u32 \<Rightarrow> u8) \<Rightarrow> kstate \<Rightarrow> kstate option" where
  "load_icode e binary s =
     (let elfhdr = read_Elf binary in
      if e_magic elfhdr \<noteq> ELF_MAGIC then None
      else do { pgdir \<leftarrow> env_pgdir (envs s e);
                let s1 = s\<lparr>cr3 := pgdir\<rparr>;
                s2 \<leftarrow> foldM (\<lambda>k. load_segment e binary
                         (read_Proghdr binary (e_phoff elfhdr + 32 * word_of_nat k)))
                       [0..<unat (e_phnum elfhdr)] s1;
                s3 \<leftarrow> region_alloc e (USTACKTOP - PGSIZE) PGSIZE s2;
                s4 \<leftarrow> kmemset (USTACKTOP - PGSIZE) 0 (unat PGSIZE) s3;
                let s5 = s4\<lparr>cr3 := kern_pgdir s4\<rparr>;
                Some (upd_env e (\<lambda>x. x\<lparr>env_tf := (env_tf x)\<lparr>tf_eip := e_entry elfhdr\<rparr>\<rparr>) s5) })"

definition env_create :: "(u32 \<Rightarrow> u8) \<Rightarrow> EnvType \<Rightarrow> kstate \<Rightarrow> kstate option" where
  "env_create binary type s =
     do { (ret, newenv, s1) \<leftarrow> env_alloc 0 s;
          if ret < 0 then None
          else do { e \<leftarrow> newenv;
                    s2 \<leftarrow> load_icode e binary (upd_env e (\<lambda>x. x\<lparr>env_type := type\<rparr>) s1);
                    Some (if type = ENV_TYPE_FS
                          then upd_env e (\<lambda>x. x\<lparr>env_tf := (env_tf x)\<lparr>tf_eflags :=
                                 tf_eflags (env_tf x) OR FL_IOPL_MASK\<rparr>\<rparr>) s2
                          else s2) } }"

section \<open>Freeing an environment\<close>

definition env_free_pte :: "nat \<Rightarrow> nat \<Rightarrow> nat \<Rightarrow> nat \<Rightarrow> kstate \<Rightarrow> kstate option" where
  "env_free_pte pgdir pt pdeno pteno s =
     (if pmem s pt pteno AND PTE_P \<noteq> 0
      then page_remove pgdir (PGADDR (word_of_nat pdeno) (word_of_nat pteno) 0) s
      else Some s)"

definition env_free_pde :: "nat \<Rightarrow> nat \<Rightarrow> kstate \<Rightarrow> kstate option" where
  "env_free_pde pgdir pdeno s =
     (if pmem s pgdir pdeno AND PTE_P = 0 then Some s
      else do { let pa = PTE_ADDR (pmem s pgdir pdeno);
                pt \<leftarrow> KADDR (npages s) pa;
                s1 \<leftarrow> foldM (env_free_pte pgdir (kva_frame pt) pdeno) [0..<unat (PTX (NOT 0)) + 1] s;
                let s2 = set_word pgdir pdeno 0 s1;
                pp \<leftarrow> pa2page (npages s2) pa;
                page_decref pp s2 })"

definition env_free :: "nat \<Rightarrow> kstate \<Rightarrow> kstate option" where
  "env_free e s =
     do { let s0 = (if curenv s = Some e then s\<lparr>cr3 := kern_pgdir s\<rparr> else s);
          pgdir \<leftarrow> env_pgdir (envs s0 e);
          s1 \<leftarrow> foldM (env_free_pde pgdir) [0..<unat (PDX UTOP)] s0;
          let pa = page2pa pgdir;
          let s2 = upd_env e (\<lambda>x. x\<lparr>env_pgdir := None\<rparr>) s1;
          pp \<leftarrow> pa2page (npages s2) pa;
          s3 \<leftarrow> page_decref pp s2;
          Some (s3\<lparr>envs := (envs s3)(e := (envs s3 e)\<lparr>env_status := ENV_FREE,
                                                       env_link := env_free_list s3\<rparr>),
                   env_free_list := Some e\<rparr>) }"

section \<open>Running and scheduling\<close>

definition CPU_STARTED :: u32 where [jos_consts]: "CPU_STARTED = 1"
definition CPU_HALTED :: u32 where [jos_consts]: "CPU_HALTED = 2"

text \<open>The big kernel lock as this CPU uses it; taking it twice or releasing it unheld panics.\<close>

definition lock_kernel :: "kstate \<Rightarrow> kstate option" where
  "lock_kernel s = (if klock s then None else Some (s\<lparr>klock := True\<rparr>))"

definition unlock_kernel :: "kstate \<Rightarrow> kstate option" where
  "unlock_kernel s = (if klock s then Some (s\<lparr>klock := False\<rparr>) else None)"

definition env_pop_tf :: "nat \<Rightarrow> kstate \<Rightarrow> exit \<times> kstate" where
  "env_pop_tf c s = (RunEnv c, upd_env c (\<lambda>x. x\<lparr>env_cpunum := cpunum s\<rparr>) s)"

definition env_run :: "nat \<Rightarrow> kstate \<Rightarrow> (exit \<times> kstate) option" where
  "env_run e s =
     (let s1 = (case curenv s of
                  Some c \<Rightarrow> if env_status (envs s c) = ENV_RUNNING
                            then upd_env c (\<lambda>x. x\<lparr>env_status := ENV_RUNNABLE\<rparr>) s else s
                | None \<Rightarrow> s);
          s2 = s1\<lparr>curenv := Some e\<rparr>;
          s3 = upd_env e (\<lambda>x. x\<lparr>env_status := ENV_RUNNING, env_runs := env_runs x + 1\<rparr>) s2
      in do { pgdir \<leftarrow> env_pgdir (envs s3 e);
              s4 \<leftarrow> unlock_kernel (s3\<lparr>cr3 := pgdir\<rparr>);
              Some (env_pop_tf e s4) })"

definition sched_halt :: "kstate \<Rightarrow> (exit \<times> kstate) option" where
  "sched_halt s =
     (if \<forall>i \<in> set [0..<NENV]. \<not> (env_status (envs s i) = ENV_RUNNABLE \<or>
           env_status (envs s i) = ENV_RUNNING \<or> env_status (envs s i) = ENV_DYING)
      then do { s1 \<leftarrow> kprintf (''No runnable environments in the system!'' @ nl) [] s; Some (Monitor, s1) }
      else do { s1 \<leftarrow> unlock_kernel (s\<lparr>curenv := None, cr3 := kern_pgdir s, cpu_status := CPU_HALTED\<rparr>);
                Some (HaltCpu, s1) })"

definition sched_start :: "kstate \<Rightarrow> nat" where
  "sched_start s =
     (case curenv s of Some idle \<Rightarrow> (ENVX (env_id (envs s idle)) + 1) mod NENV | None \<Rightarrow> 0)"

definition sched_yield :: "kstate \<Rightarrow> (exit \<times> kstate) option" where
  "sched_yield s =
     (case find (\<lambda>w. env_status (envs s w) = ENV_RUNNABLE)
             (map (\<lambda>i. (sched_start s + i) mod NENV) [0..<NENV]) of
        Some w \<Rightarrow> env_run w s
      | None \<Rightarrow>
          (case curenv s of
             Some idle \<Rightarrow> if env_status (envs s idle) = ENV_RUNNING then env_run idle s
                          else sched_halt s
           | None \<Rightarrow> sched_halt s))"

definition env_destroy :: "nat \<Rightarrow> kstate \<Rightarrow> (unit flow \<times> kstate) option" where
  "env_destroy e s =
     (if env_status (envs s e) = ENV_RUNNING \<and> curenv s \<noteq> Some e
      then Some (Returns (), upd_env e (\<lambda>x. x\<lparr>env_status := ENV_DYING\<rparr>) s)
      else do { s1 \<leftarrow> env_free e s;
                if curenv s1 = Some e
                then do { (x, s2) \<leftarrow> sched_yield (s1\<lparr>curenv := None\<rparr>); Some (Leaves x, s2) }
                else Some (Returns (), s1) })"

text \<open>\<^verbatim>\<open>user_mem_assert\<close> of \<^verbatim>\<open>kern/pmap.c\<close>: the environment does not survive a bad pointer.\<close>

definition user_mem_assert ::
  "nat \<Rightarrow> u32 \<Rightarrow> u32 \<Rightarrow> u32 \<Rightarrow> kstate \<Rightarrow> (unit flow \<times> kstate) option" where
  "user_mem_assert env va len perm s =
     do { (r, s1) \<leftarrow> user_mem_check env va len (perm OR PTE_U) s;
          if r < 0
          then do { s2 \<leftarrow> kprintf (''[%08x] user_mem_check assertion failure for va %08x'' @ nl)
                            [VInt (env_id (envs s1 env)), VInt (user_mem_check_addr s1)] s1;
                    env_destroy env s2 }
          else Some (Returns (), s1) }"

end
