(* ===== verification/Pmap_Correct.thy ===== *)
theory Pmap_Correct
  imports Pmap
begin

text \<open>
  The page allocator of \<^verbatim>\<open>kern/pmap.c\<close>: the invariant \<open>phys_ok\<close> of the free list, and what
  \<^verbatim>\<open>page_alloc\<close>, \<^verbatim>\<open>page_free\<close> and \<^verbatim>\<open>page_decref\<close> do to it.
\<close>

section \<open>The free list\<close>

definition free_list :: "kstate \<Rightarrow> nat list \<Rightarrow> bool" where
  "free_list s ps \<longleftrightarrow>
     chain pp_link (pages s) (page_free_list s) ps \<and> distinct ps \<and>
     (\<forall>p \<in> set ps. p < npages s \<and> pp_ref (pages s p) = 0)"

definition phys_ok :: "kstate \<Rightarrow> nat list \<Rightarrow> bool" where
  "phys_ok s ps \<longleftrightarrow> npages s \<le> 65536 \<and> free_list s ps \<and> (\<forall>p. p \<notin> set ps \<longrightarrow> pp_link (pages s p) = None)"

lemma phys_ok_unique: "phys_ok s ps \<Longrightarrow> phys_ok s qs \<Longrightarrow> ps = qs"
  by (auto simp: phys_ok_def free_list_def intro: chain_unique)

lemma free_listD:
  assumes "phys_ok s ps"
  shows "page_free_list s = (case ps of [] \<Rightarrow> None | p # _ \<Rightarrow> Some p)"
  using assms by (cases ps) (auto simp: phys_ok_def free_list_def)

lemma page2kva_frame:
  assumes "npgs \<le> 65536" and "pp < npgs"
  shows "page2kva npgs pp = Some (page2pa pp + KERNBASE)"
    and "PADDR (page2pa pp + KERNBASE) = Some (page2pa pp)"
    and "kva_frame (page2pa pp + KERNBASE) = pp"
proof -
  have u: "unat (page2pa pp) = pp * 4096" using assms by (intro unat_page2pa) simp
  then have n: "unat (PGNUM (page2pa pp)) = pp" by (simp add: unat_PGNUM)
  show *: "page2kva npgs pp = Some (page2pa pp + KERNBASE)"
    using assms n by (simp add: page2kva_def KADDR_def)
  show "PADDR (page2pa pp + KERNBASE) = Some (page2pa pp)"
    using * assms by (intro PADDR_KADDR [of npgs]) (auto simp: page2kva_def)
  show "kva_frame (page2pa pp + KERNBASE) = pp"
    using n by (simp add: kva_frame_def)
qed

lemma KADDR_frame:
  assumes "unat (PGNUM pde) < npgs"
  shows "KADDR npgs (PTE_ADDR pde) = Some (PTE_ADDR pde + KERNBASE)"
    and "kva_frame (PTE_ADDR pde + KERNBASE) = unat (PGNUM pde)"
  using assms by (simp_all add: KADDR_def kva_frame_def)

text \<open>The states \<^verbatim>\<open>page_alloc\<close> and \<^verbatim>\<open>page_free\<close> produce.\<close>

definition popped :: "nat \<Rightarrow> nat list \<Rightarrow> kstate \<Rightarrow> kstate" where
  "popped p ps s = s\<lparr>page_free_list := (case ps of [] \<Rightarrow> None | q # _ \<Rightarrow> Some q),
     pages := (pages s)(p := (pages s p)\<lparr>pp_link := None\<rparr>)\<rparr>"

lemma popped_link:
  assumes "phys_ok s (p # ps)"
  shows "pp_link (pages s p) = (case ps of [] \<Rightarrow> None | q # _ \<Rightarrow> Some q)"
  using assms by (cases ps) (auto simp: phys_ok_def free_list_def)

lemma page_alloc_Nil: "phys_ok s [] \<Longrightarrow> page_alloc fl s = Some (None, s)"
  by (auto simp: page_alloc_def dest: free_listD)

lemma page_alloc_Cons:
  assumes "phys_ok s (p # ps)"
  shows "page_alloc fl s = Some (Some p,
     if fl AND ALLOC_ZERO \<noteq> 0 then memset_page p 0 (popped p ps s) else popped p ps s)"
proof -
  have "p < npages s" "npages s \<le> 65536" using assms by (auto simp: phys_ok_def free_list_def)
  then show ?thesis
    using assms page2kva_frame [of "npages s" p]
    by (simp add: page_alloc_def free_listD popped_def popped_link Let_def)
qed

lemma phys_ok_popped:
  assumes "phys_ok s (p # ps)"
  shows "phys_ok (popped p ps s) ps"
proof -
  have "chain pp_link (pages s) (pp_link (pages s p)) ps" "p \<notin> set ps"
    using assms by (auto simp: phys_ok_def free_list_def)
  then show ?thesis
    using assms by (auto simp: phys_ok_def free_list_def popped_def popped_link [OF assms])
qed

lemma phys_ok_frame:
  "phys_ok (s\<lparr>pmem := m\<rparr>) ps = phys_ok s ps"
  "phys_ok (memset_page f w s) ps = phys_ok s ps"
  "phys_ok (s\<lparr>invlpgs := l\<rparr>) ps = phys_ok s ps"
  by (simp_all add: phys_ok_def free_list_def memset_page_def)

text \<open>Changing a reference count off the free list keeps the invariant.\<close>

lemma phys_ok_set_ref:
  assumes "phys_ok s ps" and "p \<notin> set ps"
  shows "phys_ok (upd_page p (\<lambda>x. x\<lparr>pp_ref := r\<rparr>) s) ps"
proof -
  have "chain pp_link ((pages s)(p := (pages s p)\<lparr>pp_ref := r\<rparr>)) q ps = chain pp_link (pages s) q ps" for q
    using assms(2) by simp
  with assms show ?thesis by (auto simp: phys_ok_def free_list_def)
qed

definition pushed :: "nat \<Rightarrow> kstate \<Rightarrow> kstate" where
  "pushed p s = s\<lparr>pages := (pages s)(p := (pages s p)\<lparr>pp_link := page_free_list s\<rparr>),
     page_free_list := Some p\<rparr>"

lemma page_free_eq:
  assumes "phys_ok s ps" and "p \<notin> set ps" and "pp_ref (pages s p) = 0"
  shows "page_free p s = Some (pushed p s)"
  using assms by (simp add: page_free_def pushed_def phys_ok_def)

lemma phys_ok_pushed:
  assumes "phys_ok s ps" and "p \<notin> set ps" and "pp_ref (pages s p) = 0" and "p < npages s"
  shows "phys_ok (pushed p s) (p # ps)"
proof -
  have "chain pp_link (pages s) (page_free_list s) ps" using assms by (auto simp: phys_ok_def free_list_def)
  then have "chain pp_link (pages (pushed p s)) (Some p) (p # ps)"
    using assms(2) pl.chain_push by (simp add: pushed_def)
  with assms show ?thesis by (auto simp: phys_ok_def free_list_def pushed_def)
qed

text \<open>\<^verbatim>\<open>page_decref\<close> either counts down or returns the frame to the free list; it never panics.\<close>

lemma page_decref_eq:
  assumes "phys_ok s ps" and "p \<notin> set ps" and "p < npages s"
  shows "page_decref p s = Some (let s1 = upd_page p (\<lambda>x. x\<lparr>pp_ref := pp_ref x - 1\<rparr>) s
     in if pp_ref (pages s p) = 1 then pushed p s1 else s1)"
proof -
  let ?s1 = "upd_page p (\<lambda>x. x\<lparr>pp_ref := pp_ref x - 1\<rparr>) s"
  have ok: "phys_ok ?s1 ps" using assms by (intro phys_ok_set_ref)
  show ?thesis
  proof (cases "pp_ref (pages s p) = 1")
    case True
    with ok assms(2) have "page_free p ?s1 = Some (pushed p ?s1)" by (intro page_free_eq) auto
    with True show ?thesis by (simp add: page_decref_def)
  next
    case False
    then show ?thesis by (simp add: page_decref_def)
  qed
qed

end
