(* ===== verification/Vm.thy ===== *)
theory Vm
  imports Pmap_Correct
begin

text \<open>
  Address spaces as the kernel builds them: which page-table entries exist, which frames they
  name, and the invariant \<open>vm_ok\<close> that ties them to the reference counts and to the free list.
  The primitive steps of the mapping operations (install a table, fill an entry, rewrite it,
  clear it) each keep the invariant.
\<close>

section \<open>Address spaces\<close>

definition user_pdx :: nat where "user_pdx = 955"

lemma user_pdx_UTOP: "unat (PDX UTOP) = user_pdx"
  by (simp add: unat_PDX user_pdx_def)

lemma user_pdx_iff: "va < UTOP \<longleftrightarrow> unat (PDX va) < user_pdx"
  by (simp add: unat_PDX user_pdx_def word_less_nat_alt) linarith

definition pres :: "u32 \<Rightarrow> bool" where "pres w \<longleftrightarrow> w AND PTE_P \<noteq> 0"

definition fr :: "u32 \<Rightarrow> nat" where "fr w = unat (PGNUM w)"

lemma pres_0 [simp]: "\<not> pres 0" by (simp add: pres_def)

text \<open>\<open>(d, i)\<close> is a page-directory slot of the user half whose table exists.\<close>

definition slots :: "kstate \<Rightarrow> nat set \<Rightarrow> (nat \<times> nat) set" where
  "slots s D = {(d, i). d \<in> D \<and> i < user_pdx \<and> pres (pmem s d i)}"

definition tab :: "kstate \<Rightarrow> nat \<times> nat \<Rightarrow> nat" where
  "tab s di = fr (pmem s (fst di) (snd di))"

definition kslots :: "kstate \<Rightarrow> nat set \<Rightarrow> (nat \<times> nat) set" where
  "kslots s D = {(d, i). d \<in> D \<and> user_pdx \<le> i \<and> i < 1024 \<and> i \<noteq> unat (PDX UVPT) \<and> pres (pmem s d i)}"

text \<open>The user mappings of frame \<open>p\<close>: directory, directory index, table index.\<close>

definition leaves :: "kstate \<Rightarrow> nat set \<Rightarrow> nat \<Rightarrow> (nat \<times> nat \<times> nat) set" where
  "leaves s D p = {(d, i, j). (d, i) \<in> slots s D \<and> j < 1024 \<and>
     pres (pmem s (tab s (d, i)) j) \<and> fr (pmem s (tab s (d, i)) j) = p}"

definition tables_ok :: "kstate \<Rightarrow> nat set \<Rightarrow> nat list \<Rightarrow> bool" where
  "tables_ok s D ps \<longleftrightarrow> finite D \<and> D \<subseteq> {..<npages s} - set ps \<and>
     tab s ` slots s D \<subseteq> {..<npages s} - set ps - D \<and>
     inj_on (tab s) (slots s D) \<and>
     tab s ` kslots s D \<subseteq> {..<npages s} - set ps - D - tab s ` slots s D"

definition leaves_ok :: "kstate \<Rightarrow> nat set \<Rightarrow> bool" where
  "leaves_ok s D \<longleftrightarrow> (\<forall>p. leaves s D p \<noteq> {} \<longrightarrow>
     p < npages s \<and> p \<notin> D \<and> p \<notin> tab s ` slots s D \<and> p \<notin> tab s ` kslots s D)"

definition refs_ok :: "kstate \<Rightarrow> nat set \<Rightarrow> bool" where
  "refs_ok s D \<longleftrightarrow> (\<forall>p. card (leaves s D p) \<le> unat (pp_ref (pages s p)))"

definition vm_ok :: "kstate \<Rightarrow> nat set \<Rightarrow> nat list \<Rightarrow> bool" where
  "vm_ok s D ps \<longleftrightarrow> phys_ok s ps \<and> tables_ok s D ps \<and> leaves_ok s D \<and> refs_ok s D"

lemmas vm_defs = vm_ok_def tables_ok_def leaves_ok_def refs_ok_def

lemma finite_slots: "finite D \<Longrightarrow> finite (slots s D)"
  by (rule finite_subset [of _ "D \<times> {..<user_pdx}"]) (auto simp: slots_def)

lemma finite_leaves: "finite D \<Longrightarrow> finite (leaves s D p)"
  by (rule finite_subset [of _ "D \<times> {..<user_pdx} \<times> {..<1024}"]) (auto simp: slots_def leaves_def)

text \<open>A mapped frame is never on the free list.\<close>

lemma leaf_not_free:
  assumes "vm_ok s D ps" and "leaves s D p \<noteq> {}"
  shows "p \<notin> set ps"
proof
  assume "p \<in> set ps"
  then have "pp_ref (pages s p) = 0" using assms by (auto simp: vm_ok_def phys_ok_def free_list_def)
  moreover have "card (leaves s D p) \<le> unat (pp_ref (pages s p))" using assms by (auto simp: vm_defs)
  ultimately have "card (leaves s D p) = 0" by simp
  moreover have "finite (leaves s D p)" using assms by (intro finite_leaves) (auto simp: vm_defs)
  ultimately show False using assms(2) by simp
qed

text \<open>Writing a word of a user page table touches one leaf and no table.\<close>

lemma slots_set_leaf:
  assumes "f \<notin> D"
  shows "slots (set_word f j w s) D = slots s D"
    and "kslots (set_word f j w s) D = kslots s D"
    and "d \<in> D \<Longrightarrow> tab (set_word f j w s) (d, i) = tab s (d, i)"
  using assms by (auto simp: slots_def kslots_def tab_def split: if_splits)

lemma tab_image_set_leaf:
  assumes "f \<notin> D"
  shows "tab (set_word f j w s) ` slots s D = tab s ` slots s D"
    and "tab (set_word f j w s) ` kslots s D = tab s ` kslots s D"
    and "inj_on (tab (set_word f j w s)) (slots s D) = inj_on (tab s) (slots s D)"
proof -
  have *: "tab (set_word f j w s) x = tab s x" if "x \<in> slots s D \<union> kslots s D" for x
    using that assms by (auto simp: slots_def kslots_def tab_def split: if_splits)
  then show "tab (set_word f j w s) ` slots s D = tab s ` slots s D"
    and "tab (set_word f j w s) ` kslots s D = tab s ` kslots s D" by auto
  show "inj_on (tab (set_word f j w s)) (slots s D) = inj_on (tab s) (slots s D)"
    using * by (intro inj_on_cong) auto
qed

lemma leaves_set_leaf:
  assumes "tables_ok s D ps" and "(d, i) \<in> slots s D" and "j < 1024"
  shows "leaves (set_word (tab s (d, i)) j w s) D p =
     (leaves s D p - {(d, i, j)}) \<union> (if pres w \<and> fr w = p then {(d, i, j)} else {})"
proof -
  let ?f = "tab s (d, i)"
  have "?f \<notin> D" and inj: "inj_on (tab s) (slots s D)" using assms by (auto simp: tables_ok_def)
  note sl = slots_set_leaf [OF \<open>?f \<notin> D\<close>]
  have same: "tab s x = ?f \<longleftrightarrow> x = (d, i)" if "x \<in> slots s D" for x
    using inj that assms(2) by (auto dest: inj_onD)
  have tabeq: "tab (set_word ?f j w s) x = tab s x" if "x \<in> slots s D" for x
    using that \<open>?f \<notin> D\<close> by (auto simp: slots_def tab_def)
  show ?thesis
  proof (intro set_eqI)
    fix x :: "nat \<times> nat \<times> nat"
    obtain d' i' j' where x: "x = (d', i', j')" by (cases x)
    show "x \<in> leaves (set_word ?f j w s) D p \<longleftrightarrow>
      x \<in> (leaves s D p - {(d, i, j)}) \<union> (if pres w \<and> fr w = p then {(d, i, j)} else {})"
    proof (cases "(d', i') \<in> slots s D")
      case True
      then show ?thesis using same [OF True] tabeq [OF True] assms(2,3)
        by (auto simp: x leaves_def sl(1))
    next
      case False
      then show ?thesis using assms(2) by (auto simp: x leaves_def sl(1))
    qed
  qed
qed

lemma tables_ok_set_leaf:
  assumes "tables_ok s D ps" and "(d, i) \<in> slots s D"
  shows "tables_ok (set_word (tab s (d, i)) j w s) D ps"
proof -
  have "tab s (d, i) \<notin> D" using assms by (auto simp: tables_ok_def)
  from slots_set_leaf(1,2) [OF this] tab_image_set_leaf [OF this] assms(1)
  show ?thesis by (simp add: tables_ok_def)
qed

text \<open>The invariant does not read the descriptors' links, the TLB log or \<open>curenv\<close>.\<close>

lemma vm_parts_frame:
  "slots (s\<lparr>pages := g\<rparr>) = slots s" "kslots (s\<lparr>pages := g\<rparr>) = kslots s"
  "tab (s\<lparr>pages := g\<rparr>) = tab s" "leaves (s\<lparr>pages := g\<rparr>) = leaves s"
  "slots (s\<lparr>page_free_list := h\<rparr>) = slots s" "kslots (s\<lparr>page_free_list := h\<rparr>) = kslots s"
  "tab (s\<lparr>page_free_list := h\<rparr>) = tab s" "leaves (s\<lparr>page_free_list := h\<rparr>) = leaves s"
  "slots (s\<lparr>invlpgs := l\<rparr>) = slots s" "kslots (s\<lparr>invlpgs := l\<rparr>) = kslots s"
  "tab (s\<lparr>invlpgs := l\<rparr>) = tab s" "leaves (s\<lparr>invlpgs := l\<rparr>) = leaves s"
  by (auto simp: slots_def kslots_def tab_def leaves_def fun_eq_iff)


section \<open>The four steps the mapping operations are made of\<close>

lemma leaf_in: "(d, i) \<in> slots s D \<Longrightarrow> j < 1024 \<Longrightarrow> pres (pmem s (tab s (d, i)) j) \<Longrightarrow>
    (d, i, j) \<in> leaves s D p \<longleftrightarrow> fr (pmem s (tab s (d, i)) j) = p"
  by (simp add: leaves_def)

lemma leaves_okI:
  assumes "leaves_ok s D" and "tables_ok s D ps" and "(d, i) \<in> slots s D" and "j < 1024"
    and "pres w \<Longrightarrow> fr w < npages s \<and> fr w \<notin> D \<union> tab s ` slots s D \<union> tab s ` kslots s D"
  shows "leaves_ok (set_word (tab s (d, i)) j w s) D"
proof -
  have "tab s (d, i) \<notin> D" using assms(2,3) by (auto simp: tables_ok_def)
  note facts = slots_set_leaf(1,2) [OF this] tab_image_set_leaf(1,2) [OF this]
    leaves_set_leaf [OF assms(2-4)]
  show ?thesis
    unfolding leaves_ok_def facts
    using assms(1,5) by (auto simp: leaves_ok_def split: if_splits)
qed

text \<open>Rewriting an entry that keeps its frame.\<close>

lemma vm_ok_same_frame:
  assumes ok: "vm_ok s D ps" and di: "(d, i) \<in> slots s D" and j: "j < 1024"
    and old: "pres (pmem s (tab s (d, i)) j)" and w: "pres w" "fr w = fr (pmem s (tab s (d, i)) j)"
  shows "vm_ok (set_word (tab s (d, i)) j w s) D ps"
proof -
  let ?x = "(d, i, j)" and ?q = "fr w"
  have t: "tables_ok s D ps" using ok by (simp add: vm_ok_def)
  have L: "leaves (set_word (tab s (d, i)) j w s) D p = leaves s D p" for p
    unfolding leaves_set_leaf [OF t di j] using leaf_in [OF di j old] w by auto
  have "?x \<in> leaves s D ?q" using leaf_in [OF di j old] w by simp
  then have "fr w < npages s \<and> fr w \<notin> D \<union> tab s ` slots s D \<union> tab s ` kslots s D"
    using ok unfolding vm_ok_def leaves_ok_def by blast
  then have "leaves_ok (set_word (tab s (d, i)) j w s) D"
    using ok t di j by (intro leaves_okI) (auto simp: vm_ok_def)
  moreover have "refs_ok (set_word (tab s (d, i)) j w s) D"
    using ok by (auto simp: vm_ok_def refs_ok_def L)
  ultimately show ?thesis
    using ok t di by (simp add: vm_ok_def phys_ok_frame tables_ok_set_leaf)
qed

text \<open>Filling an empty entry and counting the reference.\<close>

lemma vm_ok_map_leaf:
  assumes ok: "vm_ok s D ps" and di: "(d, i) \<in> slots s D" and j: "j < 1024"
    and old: "\<not> pres (pmem s (tab s (d, i)) j)"
    and w: "pres w" "fr w = pp" and pp: "pp < npages s" "pp \<notin> set ps"
      "pp \<notin> D \<union> tab s ` slots s D \<union> tab s ` kslots s D"
    and ref: "unat (pp_ref (pages s pp)) < 65535"
  shows "vm_ok (upd_page pp (\<lambda>x. x\<lparr>pp_ref := pp_ref x + 1\<rparr>) (set_word (tab s (d, i)) j w s)) D ps"
    (is "vm_ok ?s' D ps")
proof -
  let ?x = "(d, i, j)" and ?s1 = "set_word (tab s (d, i)) j w s"
  have t: "tables_ok s D ps" using ok by (simp add: vm_ok_def)
  have notin: "?x \<notin> leaves s D p" for p using old by (simp add: leaves_def)
  have L: "leaves ?s1 D p = (if p = pp then insert ?x (leaves s D p) else leaves s D p)" for p
    unfolding leaves_set_leaf [OF t di j] using notin w by auto
  have fin: "finite (leaves s D p)" for p using t by (intro finite_leaves) (simp add: tables_ok_def)
  have u: "unat (pp_ref (pages s pp) + 1) = unat (pp_ref (pages s pp)) + 1"
    using ref by (simp add: unat_word_ariths)
  have "leaves_ok ?s1 D" using ok t di j w pp by (intro leaves_okI) (auto simp: vm_ok_def)
  moreover have "refs_ok ?s' D"
    using ok fin notin u by (auto simp: vm_ok_def refs_ok_def vm_parts_frame L)
  moreover have "phys_ok ?s' ps"
    using ok pp(2) by (intro phys_ok_set_ref) (auto simp: phys_ok_frame vm_ok_def)
  ultimately show ?thesis
    using tables_ok_set_leaf [OF t di, of j w]
    by (simp add: vm_ok_def tables_ok_def leaves_ok_def vm_parts_frame)
qed

text \<open>Clearing an entry and dropping the reference.\<close>

definition dropped :: "nat \<Rightarrow> kstate \<Rightarrow> kstate" where
  "dropped q s = (let s1 = upd_page q (\<lambda>x. x\<lparr>pp_ref := pp_ref x - 1\<rparr>) s
     in if pp_ref (pages s q) = 1 then pushed q s1 else s1)"

lemma dropped_parts [simp]:
  "pmem (dropped q s) = pmem s" "npages (dropped q s) = npages s" "envs (dropped q s) = envs s"
  "curenv (dropped q s) = curenv s"
  "pp_ref (pages (dropped q s) r) = (if r = q then pp_ref (pages s r) - 1 else pp_ref (pages s r))"
  by (simp_all add: dropped_def pushed_def Let_def)

lemma slots_pmem: "pmem s' = pmem s \<Longrightarrow>
    slots s' = slots s \<and> kslots s' = kslots s \<and> tab s' = tab s \<and> leaves s' = leaves s"
  by (auto simp: slots_def kslots_def tab_def leaves_def fun_eq_iff)

lemma phys_ok_dropped:
  assumes "phys_ok s ps" and "q \<notin> set ps" and "q < npages s"
  shows "phys_ok (dropped q s) (if pp_ref (pages s q) = 1 then q # ps else ps)"
  using assms phys_ok_set_ref [of s ps q "pp_ref (pages s q) - 1"]
  by (auto simp: dropped_def Let_def intro!: phys_ok_pushed)

lemma vm_ok_unmap_leaf:
  assumes ok: "vm_ok s D ps" and di: "(d, i) \<in> slots s D" and j: "j < 1024"
    and old: "pres (pmem s (tab s (d, i)) j)" and q: "q = fr (pmem s (tab s (d, i)) j)"
  shows "vm_ok (set_word (tab s (d, i)) j 0 (dropped q s)) D
           (if pp_ref (pages s q) = 1 then q # ps else ps)" (is "vm_ok ?s' D ?ps'")
proof -
  let ?x = "(d, i, j)" and ?s1 = "set_word (tab s (d, i)) j 0 s"
  have t: "tables_ok s D ps" using ok by (simp add: vm_ok_def)
  have x: "?x \<in> leaves s D q" using leaf_in [OF di j old] q by simp
  have qok: "q < npages s" "q \<notin> D \<union> tab s ` slots s D \<union> tab s ` kslots s D"
    using ok x unfolding vm_ok_def leaves_ok_def by blast+
  have qf: "q \<notin> set ps" using leaf_not_free [OF ok] x by blast
  have fin: "finite (leaves s D p)" for p using t by (intro finite_leaves) (simp add: tables_ok_def)
  have L: "leaves ?s1 D p = (if p = q then leaves s D p - {?x} else leaves s D p)" for p
    unfolding leaves_set_leaf [OF t di j] using leaf_in [OF di j old] q by auto
  have parts: "slots ?s' = slots ?s1" "kslots ?s' = kslots ?s1" "tab ?s' = tab ?s1"
    "leaves ?s' = leaves ?s1" using slots_pmem [of ?s' ?s1] by auto
  have "card (leaves s D q) \<noteq> 0" using x fin [of q] by auto
  moreover have c: "card (leaves s D q) \<le> unat (pp_ref (pages s q))"
    using ok by (simp add: vm_ok_def refs_ok_def)
  ultimately have pos: "pp_ref (pages s q) \<noteq> 0" by auto
  then have u: "unat (pp_ref (pages s q) - 1) = unat (pp_ref (pages s q)) - 1"
    by (rule unat_minus_one)
  have "refs_ok ?s' D"
    unfolding refs_ok_def parts L
    using ok fin x u diff_le_mono [OF c, of 1] by (auto simp: vm_ok_def refs_ok_def)
  moreover have "leaves_ok ?s1 D" using ok t di j by (intro leaves_okI) (auto simp: vm_ok_def)
  then have "leaves_ok ?s' D" unfolding leaves_ok_def parts by simp
  moreover have "tables_ok ?s' D ?ps'"
  proof -
    have n: "tab s (d, i) \<notin> D" using t di by (auto simp: tables_ok_def)
    have "tables_ok ?s1 D ps" using t di by (rule tables_ok_set_leaf)
    then show ?thesis using qok(2)
      unfolding tables_ok_def parts slots_set_leaf(1,2) [OF n] tab_image_set_leaf(1,2) [OF n]
      by auto
  qed
  moreover have "phys_ok ?s' ?ps'"
    using phys_ok_dropped [OF _ qf qok(1)] ok by (simp add: phys_ok_frame vm_ok_def)
  ultimately show ?thesis by (simp add: vm_ok_def)
qed


text \<open>Installing an empty page table in a free directory slot.\<close>

definition table_entry :: "nat \<Rightarrow> u32" where
  "table_entry p = ((page2pa p OR PTE_P) OR PTE_W) OR PTE_U"

lemma table_entry: "p < 65536 \<Longrightarrow> pres (table_entry p) \<and> fr (table_entry p) = p"
proof -
  assume "p < 65536"
  then have "fr ((page2pa p OR (PTE_W OR PTE_U)) OR PTE_P) = p"
    unfolding fr_def by (intro frame_of_pte) (simp_all add: flags_only_def jos_consts)
  moreover have "pres ((page2pa p OR (PTE_W OR PTE_U)) OR PTE_P)"
    unfolding pres_def by (rule pte_P)
  moreover have "(page2pa p OR (PTE_W OR PTE_U)) OR PTE_P = table_entry p"
    by (simp add: table_entry_def ac_simps)
  ultimately show ?thesis by simp
qed

definition installed :: "nat \<Rightarrow> nat \<Rightarrow> nat \<Rightarrow> nat list \<Rightarrow> kstate \<Rightarrow> kstate" where
  "installed d i p ps s =
     set_word d i (table_entry p)
       (upd_page p (\<lambda>x. x\<lparr>pp_ref := pp_ref x + 1\<rparr>) (memset_page p 0 (popped p ps s)))"

lemma installed_pmem:
  assumes "d \<noteq> p"
  shows "pmem (installed d i p ps s) f k =
     (if f = d \<and> k = i then table_entry p else if f = p then 0 else pmem s f k)"
  using assms by (simp add: installed_def memset_page_def popped_def)

lemma vm_ok_installed:
  assumes ok: "vm_ok s D (p # ps)" and d: "d \<in> D" and i: "i < user_pdx"
    and old: "\<not> pres (pmem s d i)"
  shows "vm_ok (installed d i p ps s) D ps"
    and "(d, i) \<in> slots (installed d i p ps s) D" and "tab (installed d i p ps s) (d, i) = p"
    and "leaves (installed d i p ps s) D q = leaves s D q"
    and "tab (installed d i p ps s) ` slots (installed d i p ps s) D = insert p (tab s ` slots s D)"
    and "tab (installed d i p ps s) ` kslots (installed d i p ps s) D = tab s ` kslots s D"
proof -
  let ?s' = "installed d i p ps s"
  have t: "tables_ok s D (p # ps)" and ph: "phys_ok s (p # ps)" using ok by (auto simp: vm_ok_def)
  have p: "p < npages s" "p < 65536" "p \<notin> D" "p \<notin> tab s ` slots s D" "p \<notin> tab s ` kslots s D"
    "p \<notin> set ps" "pp_ref (pages s p) = 0"
    using t ph by (auto simp: tables_ok_def phys_ok_def free_list_def)
  have "d \<noteq> p" using d p by auto
  note m = installed_pmem [OF this, of i ps s]
  have te: "pres (table_entry p)" "fr (table_entry p) = p" using table_entry p by auto
  have sl: "slots ?s' D = insert (d, i) (slots s D)"
    using d i p te by (auto simp: slots_def m split: if_splits)
  have ksl: "kslots ?s' D = kslots s D"
    using i p by (auto simp: kslots_def m split: if_splits)
  have tb: "tab ?s' x = (if x = (d, i) then p else tab s x)" if "x \<in> slots ?s' D \<union> kslots ?s' D" for x
    using that p te by (cases x) (auto simp: tab_def m slots_def kslots_def split: if_splits)
  have nslot: "(d, i) \<notin> slots s D" using old by (simp add: slots_def)
  have tabs: "tab ?s' ` slots ?s' D = insert p (tab s ` slots s D)"
    using tb nslot by (auto simp: sl image_iff)
  have "(d, i) \<notin> kslots s D" using i by (simp add: kslots_def)
  then have ktabs: "tab ?s' ` kslots ?s' D = tab s ` kslots s D"
    using tb by (auto simp: ksl image_iff split: if_splits)
  have inj: "inj_on (tab ?s') (slots ?s' D)"
    using t tb nslot p(4) by (auto simp: tables_ok_def inj_on_def sl split: if_splits)
  have L: "leaves ?s' D q = leaves s D q" for q
  proof (intro set_eqI)
    fix x :: "nat \<times> nat \<times> nat"
    obtain d' i' j' where x: "x = (d', i', j')" by (cases x)
    have "tab s (d', i') \<noteq> p \<and> tab s (d', i') \<noteq> d" if "(d', i') \<in> slots s D"
      using that p t d by (auto simp: tables_ok_def)
    then show "x \<in> leaves ?s' D q \<longleftrightarrow> x \<in> leaves s D q"
      using tb nslot \<open>d \<noteq> p\<close> by (auto simp: x leaves_def sl m split: if_splits)
  qed
  have "tables_ok ?s' D ps"
    using t p inj unfolding tables_ok_def tabs ktabs
    by (auto simp: installed_def popped_def memset_page_def)
  moreover have "leaves_ok ?s' D"
    using ok leaf_not_free [OF ok] unfolding leaves_ok_def tabs ktabs L
    by (auto simp: vm_ok_def leaves_ok_def installed_def popped_def memset_page_def)
  moreover have "refs_ok ?s' D"
  proof -
    have "leaves s D p = {}" using leaf_not_free [OF ok, of p] by auto
    then show ?thesis using ok unfolding refs_ok_def L
      by (auto simp: vm_ok_def refs_ok_def installed_def popped_def memset_page_def)
  qed
  moreover have "phys_ok ?s' ps"
    unfolding installed_def phys_ok_frame
    using phys_ok_popped [OF ph] p(6) by (intro phys_ok_set_ref) (auto simp: phys_ok_frame)
  ultimately show "vm_ok ?s' D ps" by (simp add: vm_ok_def)
  show "leaves ?s' D q = leaves s D q" by (rule L)
  show "tab ?s' ` slots ?s' D = insert p (tab s ` slots s D)" by (rule tabs)
  show "tab ?s' ` kslots ?s' D = tab s ` kslots s D" by (rule ktabs)
  show "(d, i) \<in> slots ?s' D" by (simp add: sl)
  then show "tab ?s' (d, i) = p" using tb by simp
qed

section \<open>pgdir_walk\<close>

lemma pgdir_walk_hit:
  assumes "vm_ok s D ps" and "(d, unat (PDX va)) \<in> slots s D"
  shows "pgdir_walk d va c s = Some (Some (tab s (d, unat (PDX va)), unat (PTX va)), s)"
proof -
  have "tab s (d, unat (PDX va)) < npages s" using assms by (auto simp: vm_ok_def tables_ok_def)
  with assms(2) show ?thesis
    by (simp add: pgdir_walk_def slots_def pres_def tab_def fr_def KADDR_frame)
qed

lemma pgdir_walk_miss:
  assumes "vm_ok s D ps" and "d \<in> D" and "\<not> pres (pmem s d (unat (PDX va)))"
  shows "pgdir_walk d va False s = Some (None, s)"
    and "ps = [] \<Longrightarrow> pgdir_walk d va True s = Some (None, s)"
    and "ps = p # qs \<Longrightarrow> pgdir_walk d va True s =
      Some (Some (p, unat (PTX va)), installed d (unat (PDX va)) p qs s)"
proof -
  have ph: "phys_ok s ps" using assms by (simp add: vm_ok_def)
  show "pgdir_walk d va False s = Some (None, s)"
    using assms(3) by (simp add: pgdir_walk_def pres_def)
  show "ps = [] \<Longrightarrow> pgdir_walk d va True s = Some (None, s)"
    using assms(3) ph by (simp add: pgdir_walk_def pres_def page_alloc_Nil)
  assume ps: "ps = p # qs"
  have p: "p < npages s" "npages s \<le> 65536" using ph ps by (auto simp: phys_ok_def free_list_def)
  have "d \<noteq> p" using assms(1,2) ps by (auto simp: vm_ok_def tables_ok_def)
  have az: "ALLOC_ZERO AND ALLOC_ZERO \<noteq> 0" by (simp add: jos_consts)
  show "pgdir_walk d va True s = Some (Some (p, unat (PTX va)), installed d (unat (PDX va)) p qs s)"
    using assms(3) ph ps az p page2kva_frame [of "npages s" p] \<open>d \<noteq> p\<close>
    by (simp add: pgdir_walk_def pres_def page_alloc_Cons installed_def table_entry_def
        memset_page_def popped_def Let_def)
qed

end
