(* ===== verification/Vmap.thy ===== *)
theory Vmap
  imports Vm
begin

text \<open>
  The abstract view of an address space, a finite map from virtual page numbers to a frame and
  permission bits, and the refinement: \<^verbatim>\<open>page_insert\<close>, \<^verbatim>\<open>page_remove\<close> and \<^verbatim>\<open>page_lookup\<close> are
  update, deletion and lookup of that map, they keep the invariant, and they leave every other
  address space as it was.
\<close>

section \<open>The map of an address space\<close>

definition vmap :: "kstate \<Rightarrow> nat \<Rightarrow> nat \<Rightarrow> (nat \<times> u32) option" where
  "vmap s d n =
     (let i = n div 1024; e = pmem s (tab s (d, i)) (n mod 1024)
      in if n < user_pdx * 1024 \<and> pres (pmem s d i) \<and> pres e then Some (fr e, e AND 0xFFF) else None)"

lemma vmap_None: "\<not> (n < user_pdx * 1024 \<and> pres (pmem s d (n div 1024))) \<Longrightarrow> vmap s d n = None"
  by (auto simp: vmap_def Let_def)

definition vpn :: "u32 \<Rightarrow> nat" where "vpn va = unat (PGNUM va)"

lemma vpn_parts: "vpn va div 1024 = unat (PDX va)" "vpn va mod 1024 = unat (PTX va)"
  by (simp_all add: vpn_def unat_PGNUM unat_PDX unat_PTX div_mult2_eq [symmetric])

lemma vpn_user: "va < UTOP \<Longrightarrow> vpn va < user_pdx * 1024"
  using vpn_parts(1) [of va] user_pdx_iff [of va] by (simp add: less_mult_imp_div_less div_less_iff_less_mult)

lemma vpn_eqI: "n div 1024 = unat (PDX va) \<Longrightarrow> n mod 1024 = unat (PTX va) \<Longrightarrow> n = vpn va"
  by (metis vpn_parts div_mod_decomp)

text \<open>Writing one entry of a user page table changes the map at one page of one space.\<close>

lemma vmap_set_leaf:
  assumes t: "tables_ok s D ps" and di: "(d, unat (PDX va)) \<in> slots s D" and d': "d' \<in> D"
  shows "vmap (set_word (tab s (d, unat (PDX va))) (unat (PTX va)) w s) d' =
     (if d' = d then (vmap s d)(vpn va := (if pres w then Some (fr w, w AND 0xFFF) else None))
      else vmap s d')"
proof
  fix n :: nat
  let ?f = "tab s (d, unat (PDX va))" and ?i = "n div 1024"
  have "?f \<notin> D" and inj: "inj_on (tab s) (slots s D)" using t di by (auto simp: tables_ok_def)
  then have pd: "pmem (set_word ?f (unat (PTX va)) w s) d' = pmem s d'" using d' by auto
  have tb: "tab (set_word ?f (unat (PTX va)) w s) (d', ?i) = tab s (d', ?i)"
    using pd by (simp add: tab_def)
  have same: "tab s (d', ?i) = ?f \<longleftrightarrow> d' = d \<and> ?i = unat (PDX va)" if "(d', ?i) \<in> slots s D"
    using inj_on_eq_iff [OF inj that di] by simp
  have nva: "n = vpn va \<longleftrightarrow> ?i = unat (PDX va) \<and> n mod 1024 = unat (PTX va)"
    using vpn_eqI [of n va] vpn_parts [of va] by blast
  have u: "unat (PDX va) < user_pdx" "pres (pmem s d (unat (PDX va)))"
    using di by (auto simp: slots_def)
  show "vmap (set_word ?f (unat (PTX va)) w s) d' n =
     (if d' = d then (vmap s d)(vpn va := (if pres w then Some (fr w, w AND 0xFFF) else None))
      else vmap s d') n"
  proof (cases "n < user_pdx * 1024 \<and> pres (pmem s d' ?i)")
    case True
    then have "(d', ?i) \<in> slots s D" using d' by (simp add: slots_def less_mult_imp_div_less)
    note eq = same [OF this]
    show ?thesis
    proof (cases "d' = d \<and> ?i = unat (PDX va)")
      case c: True
      with eq have "tab s (d', ?i) = ?f" by simp
      with c True show ?thesis unfolding vmap_def pd tb Let_def by (simp add: nva)
    next
      case c: False
      with eq have "tab s (d', ?i) \<noteq> ?f" by simp
      moreover have "d' \<noteq> d \<or> n \<noteq> vpn va" using c nva by auto
      ultimately show ?thesis unfolding vmap_def pd tb Let_def by auto
    qed
  next
    case False
    then have "\<not> (d' = d \<and> n = vpn va)"
      using u nva vpn_user [of va] user_pdx_iff [of va] by auto
    moreover have "vmap (set_word ?f (unat (PTX va)) w s) d' n = None"
      using False by (intro vmap_None) (simp only: pd not_False_eq_True)
    moreover have "vmap s d' n = None" using False by (rule vmap_None)
    ultimately show ?thesis by (cases "d' = d") simp_all
  qed
qed

lemma vmap_pmem: "pmem s' = pmem s \<Longrightarrow> vmap s' = vmap s"
  by (simp add: vmap_def tab_def fun_eq_iff)

lemma vmap_installed:
  assumes ok: "vm_ok s D (p # ps)" and d: "d \<in> D" and i: "i < user_pdx"
    and old: "\<not> pres (pmem s d i)" and d': "d' \<in> D"
  shows "vmap (installed d i p ps s) d' = vmap s d'"
proof
  fix n :: nat
  have p: "p \<notin> D" "p \<notin> tab s ` slots s D" "p < 65536"
    using ok by (auto simp: vm_ok_def tables_ok_def phys_ok_def free_list_def)
  then have "d \<noteq> p" "d' \<noteq> p" using d d' by auto
  note m = installed_pmem [OF \<open>d \<noteq> p\<close>, of i ps s]
  have te: "fr (table_entry p) = p" using table_entry p by auto
  show "vmap (installed d i p ps s) d' n = vmap s d' n"
  proof (cases "d' = d \<and> n div 1024 = i")
    case True
    then show ?thesis using old \<open>d \<noteq> p\<close> te by (simp add: vmap_def tab_def m Let_def)
  next
    case False
    have "tab s (d', n div 1024) \<noteq> p \<and> tab s (d', n div 1024) \<noteq> d"
      if "n < user_pdx * 1024" "pres (pmem s d' (n div 1024))"
    proof -
      have "(d', n div 1024) \<in> slots s D"
        using that d' by (simp add: slots_def less_mult_imp_div_less)
      then show ?thesis using ok p d by (auto simp: vm_ok_def tables_ok_def)
    qed
    with False \<open>d' \<noteq> p\<close> show ?thesis by (auto simp: vmap_def tab_def m Let_def)
  qed
qed

section \<open>page_lookup and page_remove\<close>

lemma page_lookup_slot:
  assumes ok: "vm_ok s D ps" and di: "(d, unat (PDX va)) \<in> slots s D"
  shows "page_lookup d va s =
     (let f = tab s (d, unat (PDX va)); e = pmem s f (unat (PTX va))
      in Some (if pres e then Some (fr e) else None, Some (f, unat (PTX va))))"
proof -
  let ?e = "pmem s (tab s (d, unat (PDX va))) (unat (PTX va))"
  have "fr ?e < npages s" if "pres ?e"
  proof -
    have "(d, unat (PDX va), unat (PTX va)) \<in> leaves s D (fr ?e)"
      using that di by (simp add: leaves_def)
    then show ?thesis using ok unfolding vm_ok_def leaves_ok_def by blast
  qed
  then show ?thesis
    by (cases "pres ?e")
      (auto simp: page_lookup_def pgdir_walk_hit [OF ok di] pres_def pa2page_def fr_def Let_def)
qed

lemma page_lookup_none:
  assumes "vm_ok s D ps" and "d \<in> D" and "\<not> pres (pmem s d (unat (PDX va)))"
  shows "page_lookup d va s = Some (None, None)"
  by (simp add: page_lookup_def pgdir_walk_miss(1) [OF assms])

lemma vmap_slot:
  assumes "va < UTOP" and "pres (pmem s d (unat (PDX va)))"
  shows "vmap s d (vpn va) = (let e = pmem s (tab s (d, unat (PDX va))) (unat (PTX va))
      in if pres e then Some (fr e, e AND 0xFFF) else None)"
  using assms vpn_user [of va] by (simp add: vmap_def vpn_parts)

theorem page_lookup_vmap:
  assumes ok: "vm_ok s D ps" and d: "d \<in> D" and va: "va < UTOP"
  shows "\<exists>pte. page_lookup d va s = Some (map_option fst (vmap s d (vpn va)), pte)"
proof (cases "pres (pmem s d (unat (PDX va)))")
  case True
  then have "(d, unat (PDX va)) \<in> slots s D" using d va user_pdx_iff by (simp add: slots_def)
  then show ?thesis using True va by (simp add: page_lookup_slot [OF ok] vmap_slot Let_def)
next
  case False
  then show ?thesis
    by (simp add: page_lookup_none [OF ok d] vmap_def vpn_parts)
qed

lemma page_remove_slot:
  assumes ok: "vm_ok s D ps" and di: "(d, unat (PDX va)) \<in> slots s D"
    and e: "pres (pmem s (tab s (d, unat (PDX va))) (unat (PTX va)))"
    and q: "q = fr (pmem s (tab s (d, unat (PDX va))) (unat (PTX va)))"
  shows "page_remove d va s =
     Some (tlb_invalidate d va (set_word (tab s (d, unat (PDX va))) (unat (PTX va)) 0 (dropped q s)))"
proof -
  have x: "(d, unat (PDX va), unat (PTX va)) \<in> leaves s D q"
    using e q di by (simp add: leaves_def)
  have "q < npages s" using ok x unfolding vm_ok_def leaves_ok_def by blast
  moreover have "q \<notin> set ps" using leaf_not_free [OF ok] x by blast
  ultimately have "page_decref q s = Some (dropped q s)"
    using page_decref_eq [of s ps q] ok by (simp add: vm_ok_def dropped_def)
  then show ?thesis using e q by (simp add: page_remove_def page_lookup_slot [OF ok di] Let_def)
qed

lemma tlb_invalidate_parts [simp]:
  "pmem (tlb_invalidate d va s) = pmem s" "pages (tlb_invalidate d va s) = pages s"
  "npages (tlb_invalidate d va s) = npages s" "page_free_list (tlb_invalidate d va s) = page_free_list s"
  by (simp_all add: tlb_invalidate_def)

lemma vm_ok_tlb: "vm_ok (tlb_invalidate d va s) D ps = vm_ok s D ps"
  using slots_pmem [of "tlb_invalidate d va s" s]
  by (simp add: vm_ok_def phys_ok_def free_list_def tables_ok_def leaves_ok_def refs_ok_def)

theorem page_remove_vmap:
  assumes ok: "vm_ok s D ps" and d: "d \<in> D" and va: "va < UTOP"
  shows "\<exists>s' ps'. page_remove d va s = Some s' \<and> vm_ok s' D ps' \<and>
     (\<forall>d' \<in> D. vmap s' d' = (if d' = d then (vmap s d)(vpn va := None) else vmap s d'))"
proof (cases "pres (pmem s d (unat (PDX va)))")
  case True
  let ?f = "tab s (d, unat (PDX va))" and ?j = "unat (PTX va)"
  have di: "(d, unat (PDX va)) \<in> slots s D" using True d va user_pdx_iff by (simp add: slots_def)
  show ?thesis
  proof (cases "pres (pmem s ?f ?j)")
    case e: True
    define q where "q = fr (pmem s ?f ?j)"
    let ?s' = "set_word ?f ?j 0 (dropped q s)"
    have "vm_ok ?s' D (if pp_ref (pages s q) = 1 then q # ps else ps)"
      using vm_ok_unmap_leaf [OF ok di _ e q_def] by simp
    moreover have "vmap ?s' d' = (if d' = d then (vmap s d)(vpn va := None) else vmap s d')"
      if "d' \<in> D" for d'
    proof -
      have "vmap ?s' = vmap (set_word ?f ?j 0 s)" by (rule vmap_pmem) simp
      moreover have "tables_ok s D ps" using ok by (simp add: vm_ok_def)
      ultimately show ?thesis using vmap_set_leaf [OF _ di that, where w = 0] by simp
    qed
    ultimately show ?thesis
      using page_remove_slot [OF ok di e q_def] vm_ok_tlb vmap_pmem [of "tlb_invalidate d va ?s'" ?s']
      by auto
  next
    case False
    then have "page_remove d va s = Some s"
      by (simp add: page_remove_def page_lookup_slot [OF ok di] Let_def)
    moreover have "vmap s d (vpn va) = None" using False True va by (simp add: vmap_slot)
    ultimately show ?thesis using ok by (auto simp: fun_upd_idem)
  qed
next
  case False
  then have "page_remove d va s = Some s"
    by (simp add: page_remove_def page_lookup_none [OF ok d])
  moreover have "vmap s d (vpn va) = None" using False by (simp add: vmap_def vpn_parts)
  ultimately show ?thesis using ok by (auto simp: fun_upd_idem)
qed


section \<open>page_insert\<close>

definition entry :: "nat \<Rightarrow> u32 \<Rightarrow> u32" where
  "entry pp perm = (page2pa pp OR perm) OR PTE_P"

lemma entry_parts:
  assumes "pp < 65536" and "flags_only perm"
  shows "pres (entry pp perm)" and "fr (entry pp perm) = pp"
    and "entry pp perm AND 0xFFF = perm OR PTE_P"
  using assms frame_of_pte [of pp perm] pte_P [of pp perm] pte_flags [of perm pp]
  by (simp_all add: entry_def pres_def fr_def)

lemma PTE_ADDR_page2pa:
  assumes "pp < 2 ^ 20"
  shows "PTE_ADDR e = page2pa pp \<longleftrightarrow> fr e = pp"
proof -
  have "PTE_ADDR e = page2pa (fr e)"
    unfolding PTE_ADDR_def and_not_FFF by (simp add: page2pa_def fr_def PGNUM_def jos_consts)
  moreover have "unat e < 2 ^ 32" using unsigned_less [of e] by simp
  then have "fr e < 2 ^ 20" by (simp add: fr_def unat_PGNUM less_mult_imp_div_less)
  ultimately show ?thesis using assms unat_page2pa [of pp] unat_page2pa [of "fr e"] by auto
qed

text \<open>A frame that may be mapped: allocated, no page table, and its count does not saturate.\<close>

definition mappable :: "kstate \<Rightarrow> nat set \<Rightarrow> nat list \<Rightarrow> nat \<Rightarrow> bool" where
  "mappable s D ps pp \<longleftrightarrow> pp < npages s \<and> pp \<notin> set ps \<and>
     pp \<notin> D \<union> tab s ` slots s D \<union> tab s ` kslots s D \<and> unat (pp_ref (pages s pp)) < 65535"

lemma mappable_64K: "vm_ok s D ps \<Longrightarrow> mappable s D ps pp \<Longrightarrow> pp < 65536"
  by (auto simp: vm_ok_def phys_ok_def mappable_def)

abbreviation incref :: "nat \<Rightarrow> kstate \<Rightarrow> kstate" where
  "incref pp s \<equiv> upd_page pp (\<lambda>x. x\<lparr>pp_ref := pp_ref x + 1\<rparr>) s"

text \<open>What \<^verbatim>\<open>page_insert\<close> computes once the page table exists.\<close>

lemma page_insert_empty_entry:
  assumes "pgdir_walk d va True s = Some (Some (f, j), s1)" and "\<not> pres (pmem s1 f j)"
  shows "page_insert d pp va perm s = Some (0, incref pp (set_word f j (entry pp perm) s1))"
  using assms by (simp add: page_insert_def pres_def entry_def Let_def)

lemma page_insert_same_frame:
  assumes "pgdir_walk d va True s = Some (Some (f, j), s1)" and "pres (pmem s1 f j)"
    and "pp < 65536" and "fr (pmem s1 f j) = pp"
  shows "page_insert d pp va perm s = Some (0, set_word f j (entry pp perm) s1)"
  using assms PTE_ADDR_page2pa [of pp] by (simp add: page_insert_def pres_def entry_def Let_def)

lemma page_insert_other_frame:
  assumes "pgdir_walk d va True s = Some (Some (f, j), s1)" and "pres (pmem s1 f j)"
    and "pp < 65536" and "fr (pmem s1 f j) \<noteq> pp" and "page_remove d va s1 = Some s2"
  shows "page_insert d pp va perm s = Some (0, set_word f j (entry pp perm) (incref pp s2))"
  using assms PTE_ADDR_page2pa [of pp] by (simp add: page_insert_def pres_def entry_def Let_def)

text \<open>Filling an empty entry of an existing table: the invariant and the map.\<close>

lemma insert_into_slot:
  assumes ok: "vm_ok s D ps" and di: "(d, unat (PDX va)) \<in> slots s D"
    and old: "\<not> pres (pmem s (tab s (d, unat (PDX va))) (unat (PTX va)))"
    and pp: "mappable s D ps pp" and perm: "flags_only perm"
    and s': "s' = incref pp (set_word (tab s (d, unat (PDX va))) (unat (PTX va)) (entry pp perm) s)"
  shows "vm_ok s' D ps" and "\<And>d'. d' \<in> D \<Longrightarrow> vmap s' d' =
     (if d' = d then (vmap s d)(vpn va \<mapsto> (pp, perm OR PTE_P)) else vmap s d')"
proof -
  let ?s1 = "set_word (tab s (d, unat (PDX va))) (unat (PTX va)) (entry pp perm) s"
  note e = entry_parts [OF mappable_64K [OF ok pp] perm]
  show "vm_ok s' D ps"
    unfolding s' using vm_ok_map_leaf [OF ok di _ old e(1,2)] pp by (simp add: mappable_def)
  fix d' assume d': "d' \<in> D"
  have "vmap s' = vmap ?s1" unfolding s' by (rule vmap_pmem) simp
  moreover have "tables_ok s D ps" using ok by (simp add: vm_ok_def)
  ultimately show "vmap s' d' =
     (if d' = d then (vmap s d)(vpn va \<mapsto> (pp, perm OR PTE_P)) else vmap s d')"
    using vmap_set_leaf [OF _ di d', where w = "entry pp perm"] e by simp
qed


text \<open>The state after the old mapping is gone is ready for the new one.\<close>

lemma after_remove:
  assumes ok: "vm_ok s D ps" and di: "(d, unat (PDX va)) \<in> slots s D"
    and f: "f = tab s (d, unat (PDX va))" and j: "j = unat (PTX va)"
    and e: "pres (pmem s f j)" and q: "q = fr (pmem s f j)" and ne: "q \<noteq> pp"
    and pp: "mappable s D ps pp"
  obtains s2 ps2 where "page_remove d va s = Some s2" and "vm_ok s2 D ps2"
    and "(d, unat (PDX va)) \<in> slots s2 D" and "tab s2 (d, unat (PDX va)) = f"
    and "\<not> pres (pmem s2 f j)" and "mappable s2 D ps2 pp"
    and "\<And>d'. d' \<in> D \<Longrightarrow> vmap s2 d' = (if d' = d then (vmap s d)(vpn va := None) else vmap s d')"
proof -
  define s2 where "s2 = tlb_invalidate d va (set_word f j 0 (dropped q s))"
  define ps2 where "ps2 = (if pp_ref (pages s q) = 1 then q # ps else ps)"
  have t: "tables_ok s D ps" using ok by (simp add: vm_ok_def)
  have nD: "f \<notin> D" using t di f by (auto simp: tables_ok_def)
  have rm: "page_remove d va s = Some s2"
    unfolding s2_def f j using page_remove_slot [OF ok di] e q f j by simp
  have m: "pmem s2 = pmem (set_word f j 0 s)" by (simp add: s2_def)
  note parts = slots_pmem [OF m]
  have ok2: "vm_ok s2 D ps2"
    using vm_ok_unmap_leaf [OF ok di _ _ q [unfolded f]] e f j by (simp add: s2_def ps2_def vm_ok_tlb)
  have sl: "slots s2 D = slots s D" "kslots s2 D = kslots s D"
    using parts slots_set_leaf(1,2) [OF nD] by simp_all
  have tb: "tab s2 ` slots s2 D = tab s ` slots s D" "tab s2 ` kslots s2 D = tab s ` kslots s D"
    using parts tab_image_set_leaf(1,2) [OF nD] sl by simp_all
  have "tab s2 (d, unat (PDX va)) = f"
    using parts slots_set_leaf(3) [OF nD] di f by (auto simp: slots_def)
  moreover have "mappable s2 D ps2 pp"
    using pp ne unfolding mappable_def tb by (auto simp: s2_def ps2_def)
  moreover have "vmap s2 d' = (if d' = d then (vmap s d)(vpn va := None) else vmap s d')" if "d' \<in> D" for d'
  proof -
    have "vmap s2 = vmap (set_word f j 0 s)" using m by (rule vmap_pmem)
    then show ?thesis using vmap_set_leaf [OF t di that, where w = 0] f j by simp
  qed
  ultimately show thesis using that [OF rm ok2] di sl(1) m by simp
qed

theorem page_insert_vmap:
  assumes ok: "vm_ok s D ps" and d: "d \<in> D" and va: "va < UTOP"
    and pp: "mappable s D ps pp" and perm: "flags_only perm"
  shows "\<exists>r s' ps'. page_insert d pp va perm s = Some (r, s') \<and> vm_ok s' D ps' \<and>
     (r = 0 \<and> (\<forall>d' \<in> D. vmap s' d' =
                 (if d' = d then (vmap s d)(vpn va \<mapsto> (pp, perm OR PTE_P)) else vmap s d'))
      \<or> r = - E_NO_MEM \<and> s' = s \<and> ps = [])"
proof (cases "pres (pmem s d (unat (PDX va)))")
  case True
  let ?f = "tab s (d, unat (PDX va))" and ?j = "unat (PTX va)"
  have di: "(d, unat (PDX va)) \<in> slots s D" using True d va user_pdx_iff by (simp add: slots_def)
  note walk = pgdir_walk_hit [OF ok di, of True]
  note k = mappable_64K [OF ok pp]
  note en = entry_parts [OF k perm]
  show ?thesis
  proof (cases "pres (pmem s ?f ?j)")
    case e: True
    show ?thesis
    proof (cases "fr (pmem s ?f ?j) = pp")
      case same: True
      let ?s' = "set_word ?f ?j (entry pp perm) s"
      have "vm_ok ?s' D ps"
        using vm_ok_same_frame [OF ok di _ e en(1)] en(2) same by simp
      moreover have "tables_ok s D ps" using ok by (simp add: vm_ok_def)
      ultimately show ?thesis
        using page_insert_same_frame [OF walk e k same] vmap_set_leaf [OF _ di] en by fastforce
    next
      case other: False
      from after_remove [OF ok di refl refl e refl other pp] obtain s2 ps2 where
        s2: "page_remove d va s = Some s2" "vm_ok s2 D ps2" "(d, unat (PDX va)) \<in> slots s2 D"
          "tab s2 (d, unat (PDX va)) = ?f" "\<not> pres (pmem s2 ?f ?j)" "mappable s2 D ps2 pp"
        and v2: "\<And>d'. d' \<in> D \<Longrightarrow> vmap s2 d' = (if d' = d then (vmap s d)(vpn va := None) else vmap s d')"
        by blast
      let ?s' = "incref pp (set_word ?f ?j (entry pp perm) s2)"
      have "page_insert d pp va perm s = Some (0, ?s')"
        using page_insert_other_frame [OF walk e k other s2(1)] by simp
      moreover note insert_into_slot [OF s2(2,3) _ s2(6) perm, of ?s'] s2(4,5) v2
      ultimately show ?thesis using d by auto
    qed
  next
    case False
    show ?thesis
      using page_insert_empty_entry [OF walk False] insert_into_slot [OF ok di False pp perm refl]
      by blast
  qed
next
  case False
  show ?thesis
  proof (cases ps)
    case Nil
    then show ?thesis
      using pgdir_walk_miss(2) [OF ok d False] ok by (auto simp: page_insert_def)
  next
    case (Cons p qs)
    let ?s1 = "installed d (unat (PDX va)) p qs s"
    have i: "unat (PDX va) < user_pdx" using va user_pdx_iff by simp
    note okp = ok [unfolded Cons]
    note s1 = vm_ok_installed [OF okp d i False]
    have p: "p \<noteq> d" using okp d by (auto simp: vm_ok_def tables_ok_def)
    have z: "\<not> pres (pmem ?s1 p (unat (PTX va)))" using p by (simp add: installed_pmem)
    have m: "mappable ?s1 D qs pp"
      using pp Cons unfolding mappable_def s1(5,6)
      by (auto simp: installed_def memset_page_def popped_def)
    note ins = insert_into_slot [OF s1(1,2) _ m perm refl, unfolded s1(3), OF z]
    show ?thesis
      using page_insert_empty_entry [OF pgdir_walk_miss(3) [OF ok d False Cons] z] ins
        vmap_installed [OF okp d i False] d by auto
  qed
qed

section \<open>Reference counts are exact\<close>

text \<open>
  The references to a frame that are not user mappings of the directories in \<open>D\<close>: the
  difference between its count and its mappings.
\<close>

definition extra_refs :: "kstate \<Rightarrow> nat set \<Rightarrow> nat \<Rightarrow> int" where
  "extra_refs s D p = int (unat (pp_ref (pages s p))) - int (card (leaves s D p))"

lemma extra_refs_map_leaf:
  assumes t: "tables_ok s D ps" and di: "(d, i) \<in> slots s D" and j: "j < 1024"
    and old: "\<not> pres (pmem s (tab s (d, i)) j)" and w: "pres w" "fr w = pp"
    and ref: "unat (pp_ref (pages s pp)) < 65535"
  shows "extra_refs (incref pp (set_word (tab s (d, i)) j w s)) D p = extra_refs s D p"
proof -
  let ?x = "(d, i, j)" and ?s1 = "set_word (tab s (d, i)) j w s"
  have notin: "?x \<notin> leaves s D p" using old by (simp add: leaves_def)
  have "finite (leaves s D p)" using t by (intro finite_leaves) (simp add: tables_ok_def)
  moreover have "leaves ?s1 D p = (if p = pp then insert ?x (leaves s D p) else leaves s D p)"
    unfolding leaves_set_leaf [OF t di j] using notin w by auto
  moreover have "unat (pp_ref (pages s pp) + 1) = unat (pp_ref (pages s pp)) + 1"
    using ref by (simp add: unat_word_ariths)
  ultimately show ?thesis
    using notin by (auto simp add: extra_refs_def vm_parts_frame simp del: of_nat_unat)
qed

lemma extra_refs_unmap_leaf:
  assumes ok: "vm_ok s D ps" and di: "(d, i) \<in> slots s D" and j: "j < 1024"
    and old: "pres (pmem s (tab s (d, i)) j)" and q: "q = fr (pmem s (tab s (d, i)) j)"
  shows "extra_refs (set_word (tab s (d, i)) j 0 (dropped q s)) D p = extra_refs s D p"
proof -
  let ?x = "(d, i, j)" and ?s' = "set_word (tab s (d, i)) j 0 (dropped q s)"
  have t: "tables_ok s D ps" using ok by (simp add: vm_ok_def)
  have x: "?x \<in> leaves s D q" using leaf_in [OF di j old] q by simp
  have fin: "finite (leaves s D q)" using t by (intro finite_leaves) (simp add: tables_ok_def)
  then have pos: "0 < card (leaves s D q)" using x by (auto simp: card_gt_0_iff)
  moreover have le: "card (leaves s D q) \<le> unat (pp_ref (pages s q))"
    using ok by (simp add: vm_ok_def refs_ok_def)
  ultimately have u: "unat (pp_ref (pages s q) - 1) = unat (pp_ref (pages s q)) - 1"
    by (intro unat_minus_one) auto
  have "leaves ?s' D = leaves (set_word (tab s (d, i)) j 0 s) D"
    using slots_pmem [of ?s' "set_word (tab s (d, i)) j 0 s"] by simp
  then have "leaves ?s' D p = (if p = q then leaves s D p - {?x} else leaves s D p)"
    using leaves_set_leaf [OF t di j, of 0 p] leaf_in [OF di j old] q by auto
  then show ?thesis
    using x fin u pos le unfolding extra_refs_def
    by (auto simp add: of_nat_diff simp del: of_nat_unat)
qed

lemma extra_refs_pmem_pages:
  "pmem s' = pmem s \<Longrightarrow> pages s' = pages s \<Longrightarrow> extra_refs s' D p = extra_refs s D p"
  using slots_pmem [of s' s] by (simp add: extra_refs_def)

lemma page_remove_extra_refs:
  assumes ok: "vm_ok s D ps" and d: "d \<in> D" and va: "va < UTOP" and rm: "page_remove d va s = Some s'"
  shows "extra_refs s' D p = extra_refs s D p"
proof (cases "pres (pmem s d (unat (PDX va)))")
  case True
  let ?f = "tab s (d, unat (PDX va))" and ?j = "unat (PTX va)"
  have di: "(d, unat (PDX va)) \<in> slots s D" using True d va user_pdx_iff by (simp add: slots_def)
  show ?thesis
  proof (cases "pres (pmem s ?f ?j)")
    case e: True
    let ?s1 = "set_word ?f ?j 0 (dropped (fr (pmem s ?f ?j)) s)"
    have "s' = tlb_invalidate d va ?s1" using page_remove_slot [OF ok di e refl] rm by simp
    then have "extra_refs s' D p = extra_refs ?s1 D p"
      by (simp only:) (rule extra_refs_pmem_pages; simp)
    then show ?thesis using extra_refs_unmap_leaf [OF ok di _ e refl] by simp
  next
    case False
    then show ?thesis using rm by (simp add: page_remove_def page_lookup_slot [OF ok di] Let_def)
  qed
next
  case False
  then show ?thesis using rm by (simp add: page_remove_def page_lookup_none [OF ok d])
qed

lemma extra_refs_installed:
  assumes ok: "vm_ok s D (p # ps)" and d: "d \<in> D" and i: "i < user_pdx"
    and old: "\<not> pres (pmem s d i)"
  shows "extra_refs (installed d i p ps s) D q = (if q = p then 1 else extra_refs s D q)"
proof -
  have "pp_ref (pages s p) = 0" using ok by (auto simp: vm_ok_def phys_ok_def free_list_def)
  moreover have "leaves s D p = {}" using leaf_not_free [OF ok, of p] by auto
  ultimately show ?thesis
    unfolding extra_refs_def vm_ok_installed(4) [OF assms]
    by (simp add: installed_def memset_page_def popped_def)
qed

text \<open>
  \<^verbatim>\<open>page_insert\<close> changes the counts exactly as much as the mappings, except for the page table
  it may have to allocate, which gains the one reference of its directory entry.
\<close>

theorem page_insert_extra_refs:
  assumes ok: "vm_ok s D ps" and d: "d \<in> D" and va: "va < UTOP"
    and pp: "mappable s D ps pp" and perm: "flags_only perm"
    and ins: "page_insert d pp va perm s = Some (r, s')" and p: "p \<notin> set ps"
  shows "extra_refs s' D p = extra_refs s D p"
proof (cases "pres (pmem s d (unat (PDX va)))")
  case True
  let ?f = "tab s (d, unat (PDX va))" and ?j = "unat (PTX va)"
  have di: "(d, unat (PDX va)) \<in> slots s D" using True d va user_pdx_iff by (simp add: slots_def)
  note walk = pgdir_walk_hit [OF ok di, of True]
  note k = mappable_64K [OF ok pp]
  note en = entry_parts [OF k perm]
  have t: "tables_ok s D ps" using ok by (simp add: vm_ok_def)
  have ref: "unat (pp_ref (pages s pp)) < 65535" using pp by (simp add: mappable_def)
  show ?thesis
  proof (cases "pres (pmem s ?f ?j)")
    case e: True
    show ?thesis
    proof (cases "fr (pmem s ?f ?j) = pp")
      case same: True
      have "leaves (set_word ?f ?j (entry pp perm) s) D p = leaves s D p"
        unfolding leaves_set_leaf [OF t di PTX_bound] using leaf_in [OF di PTX_bound e] en same by auto
      then show ?thesis
        using page_insert_same_frame [OF walk e k same] ins by (auto simp: extra_refs_def)
    next
      case other: False
      from after_remove [OF ok di refl refl e refl other pp] obtain s2 ps2 where
        s2: "page_remove d va s = Some s2" "vm_ok s2 D ps2" "(d, unat (PDX va)) \<in> slots s2 D"
          "tab s2 (d, unat (PDX va)) = ?f" "\<not> pres (pmem s2 ?f ?j)" "mappable s2 D ps2 pp"
        by blast
      have "s' = incref pp (set_word ?f ?j (entry pp perm) s2)"
        using page_insert_other_frame [OF walk e k other s2(1), of perm] ins by auto
      moreover have "extra_refs (incref pp (set_word ?f ?j (entry pp perm) s2)) D p = extra_refs s2 D p"
        using extra_refs_map_leaf [OF _ s2(3) PTX_bound [of va], of ps2] s2 en
        by (simp add: vm_ok_def mappable_def)
      ultimately show ?thesis using page_remove_extra_refs [OF ok d va s2(1)] by simp
    qed
  next
    case False
    have "s' = incref pp (set_word ?f ?j (entry pp perm) s)"
      using page_insert_empty_entry [OF walk False] ins by simp
    then show ?thesis using extra_refs_map_leaf [OF t di PTX_bound False en(1,2) ref] by simp
  qed
next
  case False
  show ?thesis
  proof (cases ps)
    case Nil
    then show ?thesis
      using pgdir_walk_miss(2) [OF ok d False] ins by (auto simp: page_insert_def)
  next
    case (Cons a qs)
    let ?s1 = "installed d (unat (PDX va)) a qs s" and ?j = "unat (PTX va)"
    have i: "unat (PDX va) < user_pdx" using va user_pdx_iff by simp
    note okp = ok [unfolded Cons]
    note s1 = vm_ok_installed [OF okp d i False]
    note en = entry_parts [OF mappable_64K [OF ok pp] perm]
    have a: "a \<noteq> d" "a \<noteq> pp" using okp d pp Cons by (auto simp: vm_ok_def tables_ok_def mappable_def)
    have z: "\<not> pres (pmem ?s1 a ?j)" using a by (simp add: installed_pmem)
    have ref: "unat (pp_ref (pages ?s1 pp)) < 65535"
      using pp a by (simp add: mappable_def installed_def memset_page_def popped_def)
    have "s' = incref pp (set_word a ?j (entry pp perm) ?s1)"
      using page_insert_empty_entry [OF pgdir_walk_miss(3) [OF ok d False Cons] z] ins by simp
    moreover have "extra_refs (incref pp (set_word a ?j (entry pp perm) ?s1)) D p = extra_refs ?s1 D p"
      using extra_refs_map_leaf [OF _ s1(2) PTX_bound [of va], of qs] s1(1,3) z en ref
      by (simp add: vm_ok_def)
    ultimately show ?thesis using extra_refs_installed [OF okp d i False, of p] p Cons by simp
  qed
qed

section \<open>The interface of address spaces\<close>

text \<open>
  What the rest of the kernel relies on: a family \<open>D\<close> of address spaces seen as maps, in which
  inserting and removing act on one page of one space.
\<close>

locale address_spaces =
  fixes inv :: "'s \<Rightarrow> bool"
    and view :: "'s \<Rightarrow> nat \<Rightarrow> nat \<Rightarrow> (nat \<times> u32) option"
    and can_map :: "'s \<Rightarrow> nat \<Rightarrow> bool"
    and D :: "nat set"
    and lookup :: "nat \<Rightarrow> u32 \<Rightarrow> 's \<Rightarrow> nat option option"
    and ins :: "nat \<Rightarrow> nat \<Rightarrow> u32 \<Rightarrow> u32 \<Rightarrow> 's \<Rightarrow> (int \<times> 's) option"
    and rem :: "nat \<Rightarrow> u32 \<Rightarrow> 's \<Rightarrow> 's option"
  assumes lookup_view: "inv s \<Longrightarrow> d \<in> D \<Longrightarrow> va < UTOP \<Longrightarrow>
      lookup d va s = Some (map_option fst (view s d (vpn va)))"
    and ins_view: "inv s \<Longrightarrow> d \<in> D \<Longrightarrow> va < UTOP \<Longrightarrow> can_map s pp \<Longrightarrow> flags_only perm \<Longrightarrow>
      \<exists>r s'. ins d pp va perm s = Some (r, s') \<and> inv s' \<and>
        (r = 0 \<and> (\<forall>d' \<in> D. view s' d' =
            (if d' = d then (view s d)(vpn va \<mapsto> (pp, perm OR PTE_P)) else view s d'))
         \<or> r = - E_NO_MEM \<and> s' = s)"
    and rem_view: "inv s \<Longrightarrow> d \<in> D \<Longrightarrow> va < UTOP \<Longrightarrow>
      \<exists>s'. rem d va s = Some s' \<and> inv s' \<and>
        (\<forall>d' \<in> D. view s' d' = (if d' = d then (view s d)(vpn va := None) else view s d'))"
begin

lemma ins_ok:
  assumes "inv s" "d \<in> D" "va < UTOP" "can_map s pp" "flags_only perm"
    and "ins d pp va perm s = Some (0, s')"
  shows "inv s'" and "d' \<in> D \<Longrightarrow> view s' d' =
     (if d' = d then (view s d)(vpn va \<mapsto> (pp, perm OR PTE_P)) else view s d')"
  using ins_view [OF assms(1-5)] assms(6) by (auto simp: E_NO_MEM_def)

lemma lookup_after_ins:
  assumes "inv s" "d \<in> D" "va < UTOP" "can_map s pp" "flags_only perm"
    and "ins d pp va perm s = Some (0, s')" and "d' \<in> D" "va' < UTOP"
  shows "lookup d' va' s' = (if d' = d \<and> vpn va' = vpn va then Some (Some pp) else lookup d' va' s)"
  using ins_ok [OF assms(1-6)] lookup_view assms by auto

lemma lookup_after_rem:
  assumes "inv s" "d \<in> D" "va < UTOP" and "rem d va s = Some s'" and "d' \<in> D" "va' < UTOP"
  shows "lookup d' va' s' = (if d' = d \<and> vpn va' = vpn va then Some None else lookup d' va' s)"
proof -
  have "inv s'" and "view s' d' = (if d' = d then (view s d)(vpn va := None) else view s d')"
    using rem_view [OF assms(1-3)] assms(4,5) by auto
  then show ?thesis using lookup_view assms by auto
qed

text \<open>Sharing: mapping a page one space already has into another (or the same) space.\<close>

lemma share:
  assumes "inv s" "d1 \<in> D" "d2 \<in> D" "va1 < UTOP" "va2 < UTOP" "flags_only perm"
    and "lookup d1 va1 s = Some (Some pp)" and "can_map s pp"
    and "ins d2 pp va2 perm s = Some (0, s')"
  shows "lookup d1 va1 s' = Some (Some pp) \<and> lookup d2 va2 s' = Some (Some pp)"
  using lookup_after_ins [of s d2 va2 pp perm s' d1 va1]
    lookup_after_ins [of s d2 va2 pp perm s' d2 va2] assms by auto

end

interpretation asp: address_spaces
  "\<lambda>s. \<exists>ps. vm_ok s D ps" vmap "\<lambda>s pp. \<exists>ps. vm_ok s D ps \<and> mappable s D ps pp" D
  "\<lambda>d va s. map_option fst (page_lookup d va s)" page_insert page_remove
  for D
proof (unfold_locales, goal_cases)
  case (1 s d va)
  then show ?case using page_lookup_vmap by fastforce
next
  case (2 s d va pp perm)
  then obtain ps where "vm_ok s D ps" "mappable s D ps pp" by blast
  from page_insert_vmap [OF this(1) 2(2,3) this(2) 2(5)] show ?case by blast
next
  case (3 s d va)
  then obtain ps where "vm_ok s D ps" by blast
  from page_remove_vmap [OF this 3(2,3)] show ?case by blast
qed

section \<open>Properties\<close>

lemma demo_slots: "slots demo D = {}" "kslots demo D = {}" "leaves demo D p = {}"
  by (simp_all add: slots_def kslots_def leaves_def)

lemma demo_vm_ok: "vm_ok demo {1} [2, 3]"
  by (auto simp: vm_ok_def phys_ok_def free_list_def tables_ok_def leaves_ok_def refs_ok_def
      demo_slots)

lemma demo_mappable: "mappable demo {1} [2, 3] 5"
  by (simp add: mappable_def demo_slots)

text \<open>
  (C6) Let the virtual-memory invariant hold for the address spaces \<open>D\<close>, and let \<^verbatim>\<open>page_insert\<close> be
  asked to map, at a user address and with permission bits only, a frame of memory that is not
  on the free list, is not a page directory or page table, and whose 16-bit reference count is
  not at its maximum 65535 (there \<^verbatim>\<open>pp_ref++\<close> wraps to 0).  Then it does not panic.  Either it
  returns 0, and the map of that address space has gained exactly the one page asked for, with
  the permissions asked for, while every other address space is unchanged; or it returns
  \<open>-E_NO_MEM\<close> and has changed nothing.  In both cases the invariant of the free list, the page
  tables and the reference counts holds again.
\<close>

theorem page_insert_refines_update:
  assumes "vm_ok s D ps" and "d \<in> D" and "va < UTOP" and "mappable s D ps pp" and "flags_only perm"
  shows "\<exists>r s'. page_insert d pp va perm s = Some (r, s') \<and> (\<exists>ps'. vm_ok s' D ps') \<and>
     (r = 0 \<and> (\<forall>d' \<in> D. vmap s' d' =
         (if d' = d then (vmap s d)(vpn va \<mapsto> (pp, perm OR PTE_P)) else vmap s d'))
      \<or> r = - E_NO_MEM \<and> s' = s)"
  using asp.ins_view [of s D d va pp perm] assms by blast

theorem page_insert_refines_update_witness:
  "vm_ok demo {1} [2, 3] \<and> mappable demo {1} [2, 3] 5 \<and>
   (\<exists>r s'. page_insert 1 5 0x800000 (PTE_U OR PTE_W) demo = Some (r, s') \<and> (\<exists>ps'. vm_ok s' {1} ps') \<and>
     (r = 0 \<and> (\<forall>d' \<in> {1}. vmap s' d' =
         (if d' = 1 then (vmap demo 1)(vpn 0x800000 \<mapsto> (5, (PTE_U OR PTE_W) OR PTE_P)) else vmap demo d'))
      \<or> r = - E_NO_MEM \<and> s' = demo))"
  using demo_vm_ok demo_mappable
    page_insert_refines_update [OF demo_vm_ok _ _ demo_mappable, of 1 "0x800000" "PTE_U OR PTE_W"]
  by (simp add: flags_only_def jos_consts)

end
