(* ===== verification/Vsteps.thy ===== *)
theory Vsteps
  imports Vmap
begin

text \<open>
  The mapping operations as sequences of elementary steps on one family of address spaces.  What
  each step keeps, every operation keeps: \<open>vsteps\<close> is the relation the invariant of the whole
  kernel is proved over.
\<close>

section \<open>What memory operations leave alone\<close>

definition non_mem where
  "non_mem s = (npages s, kern_pgdir s, envs s, env_free_list s, curenv s, cr3 s, klock s,
     cpunum s, cpu_status s, ticks s, user_mem_check_addr s)"

lemmas non_mem_simps = non_mem_def pushed_def dropped_def popped_def memset_page_def tlb_invalidate_def

lemma non_mem_dropped [simp]: "non_mem (dropped q s) = non_mem s"
  by (simp add: non_mem_simps Let_def)

lemma non_mem_tlb [simp]: "non_mem (tlb_invalidate d va s) = non_mem s"
  by (simp add: non_mem_simps)

lemma non_mem_pmem [simp]: "non_mem (s\<lparr>pmem := m\<rparr>) = non_mem s"
  by (simp add: non_mem_simps)

lemma non_mem_pages [simp]: "non_mem (s\<lparr>pages := m\<rparr>) = non_mem s"
  by (simp add: non_mem_simps)

lemma non_memD: "non_mem s' = non_mem s \<Longrightarrow> npages s' = npages s \<and> envs s' = envs s \<and>
    env_free_list s' = env_free_list s \<and> curenv s' = curenv s \<and> kern_pgdir s' = kern_pgdir s \<and>
    klock s' = klock s \<and> cr3 s' = cr3 s \<and> cpunum s' = cpunum s"
  by (simp add: non_mem_def)

text \<open>
  Each directory of \<open>D\<close> and each user page table is referenced once, by the environment or the
  directory entry that owns it.
\<close>

definition owned_once :: "kstate \<Rightarrow> nat set \<Rightarrow> bool" where
  "owned_once s D \<longleftrightarrow> (\<forall>p \<in> D \<union> tab s ` slots s D. pp_ref (pages s p) = 1)"

lemma vm_ok_cong:
  assumes "pmem s' = pmem s" "pages s' = pages s" "page_free_list s' = page_free_list s" "npages s' = npages s"
  shows "vm_ok s' D ps = vm_ok s D ps"
  using assms slots_pmem [of s' s]
  by (simp add: vm_ok_def phys_ok_def free_list_def tables_ok_def leaves_ok_def refs_ok_def)

section \<open>Dropping a table and the directory\<close>

lemma vm_ok_clear_slot:
  assumes ok: "vm_ok s D ps" and di: "(d, i) \<in> slots s D" and f: "f = tab s (d, i)"
    and empty: "\<forall>j < 1024. \<not> pres (pmem s f j)"
  shows "vm_ok (set_word d i 0 s) D ps"
    and "f < npages s" "f \<notin> set ps" "f \<notin> D" "leaves (set_word d i 0 s) D f = {}"
    and "f \<notin> tab (set_word d i 0 s) ` slots (set_word d i 0 s) D"
    and "f \<notin> tab (set_word d i 0 s) ` kslots (set_word d i 0 s) D"
    and "leaves (set_word d i 0 s) D p = leaves s D p"
    and "d' \<in> D \<Longrightarrow> vmap (set_word d i 0 s) d' = vmap s d'"
proof -
  let ?s' = "set_word d i 0 s"
  have t: "tables_ok s D ps" using ok by (simp add: vm_ok_def)
  have d: "d \<in> D" "i < user_pdx" using di by (auto simp: slots_def)
  have nd: "tab s x \<noteq> d" if "x \<in> slots s D \<union> kslots s D" for x using that t d by (auto simp: tables_ok_def)
  have sl: "slots ?s' D = slots s D - {(d, i)}" using d by (auto simp: slots_def split: if_splits)
  have ksl: "kslots ?s' D = kslots s D" using d by (auto simp: kslots_def split: if_splits)
  have tb: "tab ?s' x = tab s x" if "x \<in> slots ?s' D \<union> kslots ?s' D" for x
    using that d unfolding sl ksl by (cases x) (auto simp: tab_def kslots_def split: if_splits)
  have tabs: "tab ?s' ` slots ?s' D = tab s ` slots s D - {f}"
    using tb t di f unfolding sl tables_ok_def by (auto simp: inj_on_eq_iff image_iff)
  have ktabs: "tab ?s' ` kslots ?s' D = tab s ` kslots s D" using tb unfolding ksl by auto
  have L: "leaves ?s' D q = leaves s D q" for q
  proof (intro set_eqI)
    fix x :: "nat \<times> nat \<times> nat"
    obtain d1 i1 j1 where x: "x = (d1, i1, j1)" by (cases x)
    show "x \<in> leaves ?s' D q \<longleftrightarrow> x \<in> leaves s D q"
    proof (cases "(d1, i1) \<in> slots ?s' D")
      case True
      then have "tab s (d1, i1) \<noteq> d" using nd sl by blast
      with True tb [of "(d1, i1)"] show ?thesis by (simp add: x leaves_def sl)
    next
      case False
      then show ?thesis using empty f by (auto simp: x leaves_def sl)
    qed
  qed
  show facts: "f < npages s" "f \<notin> set ps" "f \<notin> D" using t di f by (auto simp: tables_ok_def)
  show "f \<notin> tab ?s' ` slots ?s' D" unfolding tabs by simp
  show "f \<notin> tab ?s' ` kslots ?s' D" unfolding ktabs using t di f by (auto simp: tables_ok_def)
  show "leaves ?s' D p = leaves s D p" by (rule L)
  show "leaves ?s' D f = {}" unfolding L using ok di f by (auto simp: vm_ok_def leaves_ok_def)
  have "inj_on (tab ?s') (slots ?s' D)"
    using t tb unfolding sl tables_ok_def by (auto simp: inj_on_def)
  then have "tables_ok ?s' D ps" using t unfolding tables_ok_def tabs ktabs by auto
  moreover have "leaves_ok ?s' D" using ok unfolding leaves_ok_def L tabs ktabs
    by (auto simp: vm_ok_def leaves_ok_def)
  moreover have "refs_ok ?s' D" using ok unfolding refs_ok_def L by (auto simp: vm_ok_def refs_ok_def)
  ultimately show "vm_ok ?s' D ps" using ok by (simp add: vm_ok_def phys_ok_frame)
  assume d': "d' \<in> D"
  show "vmap ?s' d' = vmap s d'"
  proof
    fix n :: nat
    have "tab s (d', n div 1024) \<noteq> d" if "n < user_pdx * 1024" "pres (pmem s d' (n div 1024))"
      using that nd [of "(d', n div 1024)"] d' by (simp add: slots_def less_mult_imp_div_less)
    then show "vmap ?s' d' n = vmap s d' n"
      using empty f by (auto simp: vmap_def Let_def tab_def)
  qed
qed

text \<open>Dropping a reference to a frame that is neither mapped nor part of a live space.\<close>

lemma vm_ok_dropped:
  assumes ok: "vm_ok s D ps" and f: "f < npages s" "f \<notin> set ps" "f \<notin> D"
    "f \<notin> tab s ` slots s D" "f \<notin> tab s ` kslots s D" "leaves s D f = {}"
  shows "vm_ok (dropped f s) D (if pp_ref (pages s f) = 1 then f # ps else ps)" (is "vm_ok ?s' D ?ps'")
    and "page_decref f s = Some (dropped f s)"
proof -
  have parts: "slots ?s' = slots s" "kslots ?s' = kslots s" "tab ?s' = tab s" "leaves ?s' = leaves s"
    using slots_pmem [of ?s' s] by auto
  have ph: "phys_ok s ps" using ok by (simp add: vm_ok_def)
  have "phys_ok ?s' ?ps'" by (rule phys_ok_dropped [OF ph f(2,1)])
  moreover have "tables_ok ?s' D ?ps'" using ok f unfolding vm_ok_def tables_ok_def parts by auto
  moreover have "leaves_ok ?s' D" using ok unfolding vm_ok_def leaves_ok_def parts by simp
  moreover have "refs_ok ?s' D" using ok f(6) unfolding vm_ok_def refs_ok_def parts by auto
  ultimately show "vm_ok ?s' D ?ps'" by (simp add: vm_ok_def)
  show "page_decref f s = Some (dropped f s)"
    using page_decref_eq [OF ph f(2,1)] by (simp add: dropped_def)
qed

lemma vm_ok_uninstall:
  assumes ok: "vm_ok s D ps" and di: "(d, i) \<in> slots s D" and f: "f = tab s (d, i)"
    and empty: "\<forall>j < 1024. \<not> pres (pmem s f j)"
  shows "vm_ok (dropped f (set_word d i 0 s)) D (if pp_ref (pages s f) = 1 then f # ps else ps)"
    and "page_decref f (set_word d i 0 s) = Some (dropped f (set_word d i 0 s))"
proof -
  note cl = vm_ok_clear_slot [OF assms]
  have "f < npages (set_word d i 0 s)" using cl(2) by simp
  note dr = vm_ok_dropped [OF cl(1) this cl(3,4,6,7,5)]
  show "vm_ok (dropped f (set_word d i 0 s)) D (if pp_ref (pages s f) = 1 then f # ps else ps)"
    "page_decref f (set_word d i 0 s) = Some (dropped f (set_word d i 0 s))" using dr by simp_all
qed

lemma uninstall_tables:
  assumes t: "tables_ok s D ps" and di: "(d, i) \<in> slots s D" and f: "f = tab s (d, i)"
    and m: "pmem s' = pmem (set_word d i 0 s)"
  shows "tab s' ` slots s' D = tab s ` slots s D - {f}"
proof -
  have d: "d \<in> D" "i < user_pdx" using di by (auto simp: slots_def)
  have sl: "slots s' D = slots s D - {(d, i)}" using d by (auto simp: slots_def m split: if_splits)
  have "tab s' x = tab s x" if "x \<in> slots s D - {(d, i)}" for x using that m by (cases x) (auto simp: tab_def)
  then have "tab s' ` slots s' D = tab s ` (slots s D - {(d, i)})" unfolding sl by (rule image_cong [OF refl])
  also have "\<dots> = tab s ` slots s D - {f}"
    using t di f unfolding tables_ok_def by (auto simp: inj_on_eq_iff image_iff)
  finally show ?thesis .
qed

section \<open>Elementary steps\<close>

text \<open>
  \<open>vstep D pp s ps s' ps'\<close>: one change of a user page table of a directory in \<open>D\<close>, from \<open>s\<close>
  with free list \<open>ps\<close> to \<open>s'\<close> with \<open>ps'\<close>; the only frame that may gain a mapping is \<open>pp\<close>.
\<close>

inductive vstep :: "nat set \<Rightarrow> nat \<Rightarrow> kstate \<Rightarrow> nat list \<Rightarrow> kstate \<Rightarrow> nat list \<Rightarrow> bool" for D pp where
  install: "d \<in> D \<Longrightarrow> i < user_pdx \<Longrightarrow> \<not> pres (pmem s d i) \<Longrightarrow>
     vstep D pp s (p # ps) (installed d i p ps s) ps"
| fill: "(d, i) \<in> slots s D \<Longrightarrow> j < 1024 \<Longrightarrow> \<not> pres (pmem s (tab s (d, i)) j) \<Longrightarrow> pres w \<Longrightarrow>
     fr w = pp \<Longrightarrow> mappable s D ps pp \<Longrightarrow> vstep D pp s ps (incref pp (set_word (tab s (d, i)) j w s)) ps"
| rewrite: "(d, i) \<in> slots s D \<Longrightarrow> j < 1024 \<Longrightarrow> pres (pmem s (tab s (d, i)) j) \<Longrightarrow> pres w \<Longrightarrow>
     fr w = fr (pmem s (tab s (d, i)) j) \<Longrightarrow> vstep D pp s ps (set_word (tab s (d, i)) j w s) ps"
| clear: "(d, i) \<in> slots s D \<Longrightarrow> j < 1024 \<Longrightarrow> pres (pmem s (tab s (d, i)) j) \<Longrightarrow>
     q = fr (pmem s (tab s (d, i)) j) \<Longrightarrow> q \<noteq> pp \<Longrightarrow>
     vstep D pp s ps (set_word (tab s (d, i)) j 0 (dropped q s)) (if pp_ref (pages s q) = 1 then q # ps else ps)"
| uninstall: "(d, i) \<in> slots s D \<Longrightarrow> f = tab s (d, i) \<Longrightarrow> \<forall>j < 1024. \<not> pres (pmem s f j) \<Longrightarrow> f \<noteq> pp \<Longrightarrow>
     vstep D pp s ps (dropped f (set_word d i 0 s)) (if pp_ref (pages s f) = 1 then f # ps else ps)"
| flush: "vstep D pp s ps (tlb_invalidate d va s) ps"

inductive vsteps :: "nat set \<Rightarrow> nat \<Rightarrow> kstate \<Rightarrow> nat list \<Rightarrow> kstate \<Rightarrow> nat list \<Rightarrow> bool" for D pp s ps where
  none [intro!, simp]: "vsteps D pp s ps s ps"
| step: "vsteps D pp s ps t qs \<Longrightarrow> vstep D pp t qs s' ps' \<Longrightarrow> vsteps D pp s ps s' ps'"

lemma vstep_vsteps: "vstep D pp s ps s' ps' \<Longrightarrow> vsteps D pp s ps s' ps'"
  by (rule vsteps.step [OF vsteps.none])

lemma vsteps_trans: "vsteps D pp t qs s' ps' \<Longrightarrow> vsteps D pp s ps t qs \<Longrightarrow> vsteps D pp s ps s' ps'"
  by (induction rule: vsteps.induct) (auto intro: vsteps.step)

lemma vstep_vm_ok: "vstep D pp s ps s' ps' \<Longrightarrow> vm_ok s D ps \<Longrightarrow> vm_ok s' D ps'"
proof (induction rule: vstep.induct)
  case (fill d i s j w ps)
  then show ?case using vm_ok_map_leaf [of s D ps d i j w pp] by (simp add: mappable_def)
next
  case (clear d i s j q ps)
  show ?case by (rule vm_ok_unmap_leaf [OF clear(6,1-4)])
next
  case (uninstall d i s f ps)
  show ?case by (rule vm_ok_uninstall(1) [OF uninstall(5,1-3)])
qed (simp_all add: vm_ok_installed(1) vm_ok_same_frame vm_ok_tlb)

lemma vsteps_vm_ok: "vsteps D pp s ps s' ps' \<Longrightarrow> vm_ok s D ps \<Longrightarrow> vm_ok s' D ps'"
  by (induction rule: vsteps.induct) (auto dest: vstep_vm_ok)

section \<open>The mapping operations\<close>

lemma page_remove_vsteps:
  assumes ok: "vm_ok s D ps" and d: "d \<in> D" and va: "va < UTOP"
    and ne: "pp \<in> D \<or> fr (pmem s (tab s (d, unat (PDX va))) (unat (PTX va))) \<noteq> pp"
  obtains s' ps' where "page_remove d va s = Some s'" and "vsteps D pp s ps s' ps'"
proof (cases "pres (pmem s d (unat (PDX va))) \<and> pres (pmem s (tab s (d, unat (PDX va))) (unat (PTX va)))")
  case True
  let ?f = "tab s (d, unat (PDX va))" and ?j = "unat (PTX va)"
  define q where "q = fr (pmem s ?f ?j)"
  have di: "(d, unat (PDX va)) \<in> slots s D" using True d va user_pdx_iff by (simp add: slots_def)
  have e: "pres (pmem s ?f ?j)" using True by simp
  have "(d, unat (PDX va), ?j) \<in> leaves s D q" using di e by (simp add: leaves_def q_def)
  then have "q \<notin> D" using ok by (auto simp: vm_ok_def leaves_ok_def)
  then have "q \<noteq> pp" using ne q_def by auto
  note vstep.clear [OF di PTX_bound e q_def this, of ps]
  from vsteps.step [OF vstep_vsteps [OF this] vstep.flush] page_remove_slot [OF ok di e q_def]
  show thesis using that by blast
next
  case False
  have "page_remove d va s = Some s"
  proof (cases "pres (pmem s d (unat (PDX va)))")
    case True
    then have "(d, unat (PDX va)) \<in> slots s D" using d va user_pdx_iff by (simp add: slots_def)
    then show ?thesis using False True by (simp add: page_remove_def page_lookup_slot [OF ok] Let_def)
  next
    case False
    then show ?thesis by (simp add: page_remove_def page_lookup_none [OF ok d])
  qed
  then show thesis using that by blast
qed

text \<open>Into an existing table: empty entry, entry for the same frame, entry for another frame.\<close>

lemma page_insert_vsteps_slot:
  assumes ok: "vm_ok s D ps" and di: "(d, unat (PDX va)) \<in> slots s D"
    and pp: "mappable s D ps pp" and perm: "flags_only perm"
  shows "\<exists>s' ps'. page_insert d pp va perm s = Some (0, s') \<and> vsteps D pp s ps s' ps'"
proof -
  let ?f = "tab s (d, unat (PDX va))" and ?j = "unat (PTX va)"
  note walk = pgdir_walk_hit [OF ok di, of True]
  note k = mappable_64K [OF ok pp]
  note en = entry_parts [OF k perm]
  consider (empty) "\<not> pres (pmem s ?f ?j)" | (same) "pres (pmem s ?f ?j)" "fr (pmem s ?f ?j) = pp"
    | (other) "pres (pmem s ?f ?j)" "fr (pmem s ?f ?j) \<noteq> pp" by blast
  then show ?thesis
  proof cases
    case empty
    show ?thesis
      using page_insert_empty_entry [OF walk empty] vstep.fill [OF di PTX_bound empty en(1,2) pp] vstep_vsteps
      by blast
  next
    case same
    have "fr (entry pp perm) = fr (pmem s ?f ?j)" using same(2) en(2) by simp
    from vstep.rewrite [OF di PTX_bound same(1) en(1) this] page_insert_same_frame [OF walk same(1) k same(2)]
    show ?thesis using vstep_vsteps by blast
  next
    case other
    from after_remove [OF ok di refl refl other(1) refl other(2) pp] obtain s2 ps2 where
      s2: "page_remove d va s = Some s2" "vm_ok s2 D ps2" "(d, unat (PDX va)) \<in> slots s2 D"
        "tab s2 (d, unat (PDX va)) = ?f" "\<not> pres (pmem s2 ?f ?j)" "mappable s2 D ps2 pp" by blast
    have "d \<in> D" "va < UTOP" using di user_pdx_iff by (auto simp: slots_def)
    from page_remove_vsteps [OF ok this, of pp] other(2) s2(1) obtain ps3 where v: "vsteps D pp s ps s2 ps3" by auto
    have "ps3 = ps2" using vsteps_vm_ok [OF v ok] s2(2) phys_ok_unique by (auto simp: vm_ok_def)
    then have "vsteps D pp s ps (incref pp (set_word ?f ?j (entry pp perm) s2)) ps2"
      using vstep.fill [OF s2(3) PTX_bound _ en(1,2) s2(6), of va] s2(4,5) vsteps.step [OF v] by simp
    moreover have "page_insert d pp va perm s = Some (0, incref pp (set_word ?f ?j (entry pp perm) s2))"
      using page_insert_other_frame [OF walk other(1) k other(2) s2(1)] by simp
    ultimately show ?thesis by blast
  qed
qed

lemma page_insert_vsteps:
  assumes ok: "vm_ok s D ps" and d: "d \<in> D" and va: "va < UTOP"
    and pp: "mappable s D ps pp" and perm: "flags_only perm"
  obtains (inserted) s' ps' where "page_insert d pp va perm s = Some (0, s')" and "vsteps D pp s ps s' ps'"
  | (no_memory) "page_insert d pp va perm s = Some (- E_NO_MEM, s)" and "ps = []"
proof (cases "pres (pmem s d (unat (PDX va)))")
  case True
  then have "(d, unat (PDX va)) \<in> slots s D" using d va user_pdx_iff by (simp add: slots_def)
  from page_insert_vsteps_slot [OF ok this pp perm] show thesis using inserted by blast
next
  case False
  show thesis
  proof (cases ps)
    case Nil
    then show thesis using pgdir_walk_miss(2) [OF ok d False] no_memory by (auto simp: page_insert_def)
  next
    case (Cons p qs)
    let ?s1 = "installed d (unat (PDX va)) p qs s"
    have i: "unat (PDX va) < user_pdx" using va user_pdx_iff by simp
    note okp = ok [unfolded Cons]
    note s1 = vm_ok_installed [OF okp d i False]
    have m: "mappable ?s1 D qs pp"
      using pp Cons unfolding mappable_def s1(5,6) by (auto simp: installed_def memset_page_def popped_def)
    have "page_insert d pp va perm s = page_insert d pp va perm ?s1"
      using pgdir_walk_miss(3) [OF ok d False Cons] pgdir_walk_hit [OF s1(1,2), of True] s1(3)
      by (simp add: page_insert_def)
    moreover from page_insert_vsteps_slot [OF s1(1,2) m perm] obtain s' ps' where
      "page_insert d pp va perm ?s1 = Some (0, s')" "vsteps D pp ?s1 qs s' ps'" by blast
    moreover have "vsteps D pp s ps ?s1 qs" unfolding Cons using vstep.install [OF d i False] vstep_vsteps by blast
    ultimately show thesis using inserted vsteps_trans by metis
  qed
qed

section \<open>What the steps keep\<close>

lemma vstep_non_mem: "vstep D pp s ps s' ps' \<Longrightarrow> non_mem s' = non_mem s"
proof (induction rule: vstep.induct)
  case (install d i s p ps)
  show ?case by (simp add: installed_def) (simp add: non_mem_simps)
qed simp_all

lemma vsteps_non_mem: "vsteps D pp s ps s' ps' \<Longrightarrow> non_mem s' = non_mem s"
  by (induction rule: vsteps.induct) (simp_all add: vstep_non_mem)

text \<open>Frames of the user half: directories, tables, mapped frames and free frames.\<close>

definition uframes :: "kstate \<Rightarrow> nat set \<Rightarrow> nat list \<Rightarrow> nat set" where
  "uframes s D ps = D \<union> tab s ` slots s D \<union> {p. leaves s D p \<noteq> {}} \<union> set ps"

lemma uframes_cong: "pmem s' = pmem s \<Longrightarrow> uframes s' D ps = uframes s D ps"
  using slots_pmem [of s' s] by (simp add: uframes_def)

lemma uframes_mono: "E \<subseteq> D \<Longrightarrow> set qs \<subseteq> uframes s D ps \<Longrightarrow> uframes s E qs \<subseteq> uframes s D ps"
  by (auto simp: uframes_def leaves_def slots_def)

lemma set_leaf_keeps:
  assumes t: "tables_ok s D ps" and di: "(d, i) \<in> slots s D" and j: "j < 1024"
    and s': "pmem s' = pmem (set_word (tab s (d, i)) j w s)"
  shows "tab s' ` slots s' D = tab s ` slots s D"
    and "leaves s' D p \<subseteq> leaves s D p \<union> (if pres w \<and> fr w = p then {(d, i, j)} else {})"
    and "f \<notin> uframes s D ps \<Longrightarrow> pmem s' f = pmem s f"
proof -
  have n: "tab s (d, i) \<notin> D" using t di by (auto simp: tables_ok_def)
  note parts = slots_pmem [OF s']
  show "tab s' ` slots s' D = tab s ` slots s D"
    using parts slots_set_leaf(1) [OF n] tab_image_set_leaf(1) [OF n] by simp
  show "leaves s' D p \<subseteq> leaves s D p \<union> (if pres w \<and> fr w = p then {(d, i, j)} else {})"
    using parts leaves_set_leaf [OF t di j, of w p] by auto
  assume "f \<notin> uframes s D ps"
  then have "f \<noteq> tab s (d, i)" using di by (auto simp: uframes_def)
  then show "pmem s' f = pmem s f" using s' by auto
qed

lemma uframes_set_leaf:
  assumes t: "tables_ok s D ps" and di: "(d, i) \<in> slots s D" and j: "j < 1024"
    and s': "pmem s' = pmem (set_word (tab s (d, i)) j w s)"
    and w: "pres w \<Longrightarrow> fr w \<in> uframes s D ps \<union> X" and ps': "set ps' \<subseteq> uframes s D ps"
  shows "uframes s' D ps' \<subseteq> uframes s D ps \<union> X"
proof
  fix p assume "p \<in> uframes s' D ps'"
  then consider "p \<in> D \<union> tab s' ` slots s' D" | "leaves s' D p \<noteq> {}" | "p \<in> set ps'" by (auto simp: uframes_def)
  then show "p \<in> uframes s D ps \<union> X"
  proof cases
    case 1
    then show ?thesis using set_leaf_keeps(1) [OF t di j s'] by (auto simp: uframes_def)
  next
    case 2
    then have "leaves s D p \<noteq> {} \<or> pres w \<and> fr w = p"
      using set_leaf_keeps(2) [OF t di j s', of p] by (auto split: if_splits)
    then show ?thesis using w by (auto simp: uframes_def)
  qed (use ps' in blast)
qed

lemma leaf_uframe:
  "(d, i) \<in> slots s D \<Longrightarrow> j < 1024 \<Longrightarrow> pres (pmem s (tab s (d, i)) j) \<Longrightarrow> fr (pmem s (tab s (d, i)) j) \<in> uframes s D ps"
  by (auto simp: uframes_def leaves_def)

lemma free_uframe: "set ps \<subseteq> uframes s D ps"
  by (auto simp: uframes_def)

lemma installed_uframes:
  assumes ok: "vm_ok s D (p # ps)" and d: "d \<in> D" and i: "i < user_pdx" and old: "\<not> pres (pmem s d i)"
  shows "uframes (installed d i p ps s) D ps \<subseteq> uframes s D (p # ps)"
    and "f \<notin> uframes s D (p # ps) \<Longrightarrow> pmem (installed d i p ps s) f = pmem s f"
    and "owned_once s D \<Longrightarrow> owned_once (installed d i p ps s) D"
proof -
  note k = vm_ok_installed(4-6) [OF ok d i old]
  have p: "pp_ref (pages s p) = 0" "p \<noteq> d"
    using ok d by (auto simp: vm_ok_def phys_ok_def free_list_def tables_ok_def)
  show "uframes (installed d i p ps s) D ps \<subseteq> uframes s D (p # ps)" unfolding uframes_def k by auto
  show "owned_once s D \<Longrightarrow> owned_once (installed d i p ps s) D"
    using p unfolding owned_once_def k by (auto simp: installed_def memset_page_def popped_def)
  assume "f \<notin> uframes s D (p # ps)"
  then have "f \<noteq> d" "f \<noteq> p" using d by (auto simp: uframes_def)
  then show "pmem (installed d i p ps s) f = pmem s f" using p by (simp add: fun_eq_iff installed_pmem)
qed

lemma uninstall_uframes:
  assumes ok: "vm_ok s D ps" and di: "(d, i) \<in> slots s D" and f: "f = tab s (d, i)"
    and empty: "\<forall>j < 1024. \<not> pres (pmem s f j)"
  defines "s' \<equiv> dropped f (set_word d i 0 s)"
  shows "uframes s' D (if pp_ref (pages s f) = 1 then f # ps else ps) \<subseteq> uframes s D ps"
    and "g \<notin> uframes s D ps \<Longrightarrow> pmem s' g = pmem s g"
    and "owned_once s D \<Longrightarrow> owned_once s' D"
proof -
  have t: "tables_ok s D ps" using ok by (simp add: vm_ok_def)
  have m: "pmem s' = pmem (set_word d i 0 s)" by (simp add: s'_def)
  note tb = uninstall_tables [OF t di f m]
  have L: "leaves s' D p = leaves s D p" for p
    using slots_pmem [OF m] vm_ok_clear_slot(8) [OF ok di f empty] by simp
  have fU: "f \<in> uframes s D ps" using di f by (auto simp: uframes_def)
  show "uframes s' D (if pp_ref (pages s f) = 1 then f # ps else ps) \<subseteq> uframes s D ps"
    using fU unfolding uframes_def tb L by auto
  show "owned_once s' D" if "owned_once s D"
  proof -
    have "f \<notin> D" using t di f by (auto simp: tables_ok_def)
    then show ?thesis using that unfolding owned_once_def tb by (auto simp: s'_def)
  qed
  assume "g \<notin> uframes s D ps"
  then have "g \<noteq> d" using di by (auto simp: uframes_def slots_def)
  then show "pmem s' g = pmem s g" by (simp add: s'_def)
qed

lemma owned_once_set_leaf:
  assumes t: "tables_ok s D ps" and di: "(d, i) \<in> slots s D" and j: "j < 1024"
    and s': "pmem s' = pmem (set_word (tab s (d, i)) j w s)"
    and same: "\<And>p. p \<in> D \<union> tab s ` slots s D \<Longrightarrow> pp_ref (pages s' p) = pp_ref (pages s p)"
  shows "owned_once s D \<Longrightarrow> owned_once s' D"
  using same unfolding owned_once_def set_leaf_keeps(1) [OF t di j s'] by simp

lemma vstep_uframes:
  assumes "vstep D pp s ps s' ps'" and "vm_ok s D ps"
  shows "uframes s' D ps' \<subseteq> uframes s D ps \<union> {pp}"
  using assms
proof (induction rule: vstep.induct)
  case (install d i s p ps)
  then show ?case using installed_uframes(1) by blast
next
  case (fill d i s j w ps)
  then show ?case by (intro uframes_set_leaf [OF _ fill(1,2)]) (auto simp: vm_ok_def free_uframe)
next
  case (rewrite d i s j w ps)
  then show ?case using leaf_uframe [OF rewrite(1-3), of ps]
    by (intro uframes_set_leaf [OF _ rewrite(1,2)]) (auto simp: vm_ok_def free_uframe)
next
  case (clear d i s j q ps)
  then show ?case using leaf_uframe [OF clear(1-3), of ps] free_uframe [of ps s D]
    by (intro uframes_set_leaf [OF _ clear(1,2)]) (auto simp: vm_ok_def)
next
  case (uninstall d i s f ps)
  note k = uninstall_uframes [OF uninstall(5,1-3)]
  show ?case using k(1) by blast
next
  case (flush s ps d va)
  have "pmem (tlb_invalidate d va s) = pmem s" by simp
  from slots_pmem [OF this] show ?case by (auto simp: uframes_def)
qed

lemma vstep_frames_kept:
  assumes "vstep D pp s ps s' ps'" and "vm_ok s D ps" and "f \<notin> uframes s D ps"
  shows "pmem s' f = pmem s f"
  using assms
proof (induction rule: vstep.induct)
  case (install d i s p ps)
  then show ?case using installed_uframes(2) by blast
next
  case (fill d i s j w ps)
  then show ?case by (intro set_leaf_keeps(3) [OF _ fill(1,2)]) (auto simp: vm_ok_def)
next
  case (rewrite d i s j w ps)
  then show ?case by (intro set_leaf_keeps(3) [OF _ rewrite(1,2)]) (auto simp: vm_ok_def)
next
  case (clear d i s j q ps)
  then show ?case by (intro set_leaf_keeps(3) [OF _ clear(1,2)]) (auto simp: vm_ok_def)
next
  case (uninstall d i s f' ps)
  then show ?case using uninstall_uframes(2) by blast
qed simp

lemma vstep_owned_once:
  assumes "vstep D pp s ps s' ps'" and "vm_ok s D ps" and "owned_once s D"
  shows "owned_once s' D"
  using assms
proof (induction rule: vstep.induct)
  case (install d i s p ps)
  then show ?case using installed_uframes(3) by blast
next
  case (fill d i s j w ps)
  have t: "tables_ok s D ps" and "pp \<notin> D \<union> tab s ` slots s D" using fill(6,7) by (auto simp: vm_ok_def mappable_def)
  then show ?case by (intro owned_once_set_leaf [OF t fill(1,2) _ _ fill(8)]) auto
next
  case (rewrite d i s j w ps)
  have t: "tables_ok s D ps" using rewrite(6) by (simp add: vm_ok_def)
  show ?case by (intro owned_once_set_leaf [OF t rewrite(1,2) _ _ rewrite(7)]) simp_all
next
  case (clear d i s j q ps)
  then have "leaves s D q \<noteq> {}" by (auto simp: leaves_def)
  then have "q \<notin> D \<union> tab s ` slots s D" and t: "tables_ok s D ps"
    using clear(6) by (simp_all add: vm_ok_def leaves_ok_def)
  then show ?case by (intro owned_once_set_leaf [OF t clear(1,2) _ _ clear(7)]) auto
next
  case (uninstall d i s f ps)
  then show ?case using uninstall_uframes(3) by blast
next
  case (flush s ps d va)
  have "pmem (tlb_invalidate d va s) = pmem s" by simp
  from slots_pmem [OF this] flush show ?case by (simp add: owned_once_def)
qed

text \<open>The frame being mapped keeps its contents.\<close>

lemma vsteps_page_kept:
  assumes "vsteps D pp s ps s' ps'" and "vm_ok s D ps" and "pp \<notin> D \<union> tab s ` slots s D \<union> set ps"
  shows "pmem s' pp = pmem s pp"
proof -
  have one: "pp \<notin> D \<union> tab t' ` slots t' D \<union> set qs' \<and> pmem t' pp = pmem t pp"
    if "vstep D pp t qs t' qs'" "vm_ok t D qs" "pp \<notin> D \<union> tab t ` slots t D \<union> set qs" for t qs t' qs'
    using that
  proof (induction rule: vstep.induct)
    case (install d i s p ps)
    note k = vm_ok_installed(5) [OF install(4,1-3)]
    have "p \<noteq> d" using install by (auto simp: vm_ok_def tables_ok_def)
    with install(1,5) show ?case unfolding k by (auto simp: fun_eq_iff installed_pmem)
  next
    case (fill d i s j w ps)
    have t: "tables_ok s D ps" using fill(7) by (simp add: vm_ok_def)
    have "pp \<noteq> tab s (d, i)" using fill(1,8) by auto
    with set_leaf_keeps(1) [OF t fill(1,2), of "incref pp (set_word (tab s (d, i)) j w s)" w] fill(8)
    show ?case by simp
  next
    case (rewrite d i s j w ps)
    have t: "tables_ok s D ps" using rewrite(6) by (simp add: vm_ok_def)
    have "pp \<noteq> tab s (d, i)" using rewrite(1,7) by auto
    with set_leaf_keeps(1) [OF t rewrite(1,2), of "set_word (tab s (d, i)) j w s" w] rewrite(7) show ?case by simp
  next
    case (clear d i s j q ps)
    have t: "tables_ok s D ps" using clear(6) by (simp add: vm_ok_def)
    have "pp \<noteq> tab s (d, i)" using clear(1,7) by auto
    with set_leaf_keeps(1) [OF t clear(1,2), of "set_word (tab s (d, i)) j 0 (dropped q s)" 0] clear(5,7)
    show ?case by simp
  next
    case (uninstall d i s f ps)
    have t: "tables_ok s D ps" using uninstall(5) by (simp add: vm_ok_def)
    have "pp \<noteq> d" using uninstall(1,6) by (auto simp: slots_def)
    with uninstall_tables [OF t uninstall(1,2), of "dropped f (set_word d i 0 s)"] uninstall(4,6)
    show ?case by simp
  next
    case (flush s ps d va)
    have "pmem (tlb_invalidate d va s) = pmem s" by simp
    from slots_pmem [OF this] flush show ?case by simp
  qed
  have "vm_ok s' D ps' \<and> pp \<notin> D \<union> tab s' ` slots s' D \<union> set ps' \<and> pmem s' pp = pmem s pp"
    using assms
  proof (induction rule: vsteps.induct)
    case (step t qs s' ps')
    then have IH: "vm_ok t D qs" "pp \<notin> D \<union> tab t ` slots t D \<union> set qs" "pmem t pp = pmem s pp" by blast+
    from \<open>vstep D pp t qs s' ps'\<close> show ?case using vstep_vm_ok [OF _ IH(1)] one [OF _ IH(1,2)] IH(3) by simp
  qed simp
  then show ?thesis by blast
qed

lemma vsteps_uframes:
  assumes "vsteps D pp s ps s' ps'" and "vm_ok s D ps"
  shows "uframes s' D ps' \<subseteq> uframes s D ps \<union> {pp}"
    and "f \<notin> uframes s D ps \<union> {pp} \<Longrightarrow> pmem s' f = pmem s f"
    and "owned_once s D \<Longrightarrow> owned_once s' D"
proof -
  have "vm_ok s' D ps' \<and> uframes s' D ps' \<subseteq> uframes s D ps \<union> {pp} \<and>
      (\<forall>f. f \<notin> uframes s D ps \<union> {pp} \<longrightarrow> pmem s' f = pmem s f) \<and> (owned_once s D \<longrightarrow> owned_once s' D)"
    using assms
  proof (induction rule: vsteps.induct)
    case (step t qs s' ps')
    then have IH: "vm_ok t D qs" "uframes t D qs \<subseteq> uframes s D ps \<union> {pp}"
        "\<And>f. f \<notin> uframes s D ps \<union> {pp} \<Longrightarrow> pmem t f = pmem s f" "owned_once s D \<Longrightarrow> owned_once t D" by blast+
    note st = vstep_uframes [OF step(2) IH(1)] vstep_frames_kept [OF step(2) IH(1)] vstep_owned_once [OF step(2) IH(1)]
    have "pmem s' f = pmem s f" if "f \<notin> uframes s D ps \<union> {pp}" for f
      using that IH(2,3) st(2) [of f] by (metis subsetD)
    then show ?case using IH st vstep_vm_ok [OF step(2) IH(1)] by blast
  qed blast
  then show "uframes s' D ps' \<subseteq> uframes s D ps \<union> {pp}" "f \<notin> uframes s D ps \<union> {pp} \<Longrightarrow> pmem s' f = pmem s f"
    "owned_once s D \<Longrightarrow> owned_once s' D" by blast+
qed

end
