(* ===== verification/Env_Free.thy ===== *)
theory Env_Free
  imports Environment Vsteps
begin

text \<open>
  \<^verbatim>\<open>env_free\<close> dismantles an address space: it unmaps every user page, frees every page table
  and the directory, never panics, keeps the invariant of the remaining address spaces, and
  gives back exactly the references the dead environment held.
\<close>

section \<open>Frames given back\<close>

text \<open>
  \<open>released s ps s' ps'\<close>: going from \<open>s\<close> to \<open>s'\<close> the free list grew by exactly the frames
  whose last reference was dropped.
\<close>

definition released :: "kstate \<Rightarrow> nat list \<Rightarrow> kstate \<Rightarrow> nat list \<Rightarrow> bool" where
  "released s ps s' ps' \<longleftrightarrow>
     set ps' = set ps \<union> {p. pp_ref (pages s p) \<noteq> 0 \<and> pp_ref (pages s' p) = 0} \<and>
     (\<forall>p. pp_ref (pages s p) = 0 \<longrightarrow> pp_ref (pages s' p) = 0)"

lemma released_refl [simp]: "released s ps s ps"
  by (simp add: released_def)

lemma released_trans: "released s ps s1 ps1 \<Longrightarrow> released s1 ps1 s2 ps2 \<Longrightarrow> released s ps s2 ps2"
  by (auto simp: released_def)

lemma released_same_pages: "pages s' = pages s \<Longrightarrow> released s ps s' ps"
  by (simp add: released_def)

lemma released_dropped:
  "pp_ref (pages s q) \<noteq> 0 \<Longrightarrow>
    released s ps (dropped q s) (if pp_ref (pages s q) = 1 then q # ps else ps)"
  by (auto simp: released_def)

lemma released_cong: "pages s' = pages s1 \<Longrightarrow> released s ps s' ps' = released s ps s1 ps'"
  by (simp add: released_def)

section \<open>One page table\<close>

text \<open>The address \<^verbatim>\<open>env_free\<close> computes names the entry it is looking at.\<close>

lemma PGADDR_parts:
  assumes "i < 1024" and "j < 1024"
  shows "unat (PDX (PGADDR (word_of_nat i) (word_of_nat j) 0)) = i"
    and "unat (PTX (PGADDR (word_of_nat i) (word_of_nat j) 0)) = j"
proof -
  let ?a = "word_of_nat i :: u32" and ?b = "word_of_nat j :: u32"
  have "take_bit 10 i = i" "take_bit 10 j = j" using assms by (simp_all add: take_bit_nat_eq_self)
  then have nb: "bit i n \<Longrightarrow> n < 10" "bit j n \<Longrightarrow> n < 10" for n by (metis bit_take_bit_iff)+
  have "PDX (PGADDR ?a ?b 0) = ?a"
    by (rule bit_word_eqI) (auto simp: PGADDR_def PDX_def jos_consts and_3FF bit_simps dest: nb)
  moreover have "PTX (PGADDR ?a ?b 0) = ?b"
    by (rule bit_word_eqI) (auto simp: PGADDR_def PTX_def jos_consts and_3FF bit_simps dest: nb)
  ultimately show "unat (PDX (PGADDR ?a ?b 0)) = i" "unat (PTX (PGADDR ?a ?b 0)) = j"
    using assms by (simp_all add: unat_of_nat)
qed

text \<open>The state while the entries \<open>xs\<close> of the table in slot \<open>(d, i)\<close> have been visited.\<close>

definition emptying :: "kstate \<Rightarrow> nat set \<Rightarrow> nat list \<Rightarrow> nat \<Rightarrow> nat \<Rightarrow> nat list \<Rightarrow> kstate \<Rightarrow> nat list \<Rightarrow> bool" where
  "emptying s D ps d i xs s' ps' \<longleftrightarrow>
     vm_ok s' D ps' \<and> vsteps D d s ps s' ps' \<and> released s ps s' ps' \<and>
     (\<forall>p. extra_refs s' D p = extra_refs s D p) \<and>
     (\<forall>f \<in> D. pmem s' f = pmem s f) \<and>
     (\<forall>j \<in> set xs. \<not> pres (pmem s' (tab s (d, i)) j)) \<and>
     (\<forall>d' \<in> D. d' \<noteq> d \<longrightarrow> vmap s' d' = vmap s d') \<and>
     (\<forall>n. n div 1024 \<noteq> i \<longrightarrow> vmap s' d n = vmap s d n)"

lemma emptying_start: "vm_ok s D ps \<Longrightarrow> emptying s D ps d i [] s ps"
  by (simp add: emptying_def)

lemma emptying_slot:
  assumes "emptying s D ps d i xs s' ps'" and "(d, i) \<in> slots s D"
  shows "(d, i) \<in> slots s' D" and "tab s' (d, i) = tab s (d, i)"
  using assms by (auto simp: emptying_def slots_def tab_def)

lemma env_free_pte_step:
  assumes inv: "emptying s D ps d i xs s1 ps1" and di: "(d, i) \<in> slots s D" and j: "j < 1024"
  shows "\<exists>s2 ps2. env_free_pte d (tab s (d, i)) i j s1 = Some s2 \<and> emptying s D ps d i (xs @ [j]) s2 ps2"
proof (cases "pres (pmem s1 (tab s (d, i)) j)")
  case False
  then show ?thesis using inv by (auto simp: env_free_pte_def pres_def emptying_def)
next
  case True
  let ?f = "tab s (d, i)" and ?va = "PGADDR (word_of_nat i) (word_of_nat j) 0"
  have ok: "vm_ok s1 D ps1" using inv by (simp add: emptying_def)
  note sl = emptying_slot [OF inv di]
  have i: "i < user_pdx" "d \<in> D" using di by (auto simp: slots_def)
  then have "i < 1024" by (simp add: user_pdx_def)
  note va = PGADDR_parts [OF this j]
  define q where "q = fr (pmem s1 ?f j)"
  define s2 where "s2 = tlb_invalidate d ?va (set_word ?f j 0 (dropped q s1))"
  have rm: "page_remove d ?va s1 = Some s2"
    unfolding s2_def using page_remove_slot [OF ok, of d ?va q] va sl True q_def by simp
  have e: "env_free_pte d ?f i j s1 = Some s2"
    using True rm by (simp add: env_free_pte_def pres_def)
  define ps2 where "ps2 = (if pp_ref (pages s1 q) = 1 then q # ps1 else ps1)"
  have ok2: "vm_ok s2 D ps2"
    using vm_ok_unmap_leaf [OF ok sl(1) j, of q] True q_def [symmetric] sl(2)
    by (simp add: s2_def vm_ok_tlb ps2_def del: if_split)
  have nD: "?f \<notin> D" using ok sl by (auto simp: vm_ok_def tables_ok_def)
  have "pp_ref (pages s1 q) \<noteq> 0"
  proof -
    have x: "(d, i, j) \<in> leaves s1 D q" using sl True j by (simp add: leaves_def q_def)
    moreover have "finite (leaves s1 D q)" using ok by (intro finite_leaves) (auto simp: vm_defs)
    ultimately have "card (leaves s1 D q) \<noteq> 0" by auto
    moreover have "card (leaves s1 D q) \<le> unat (pp_ref (pages s1 q))"
      using ok by (simp add: vm_ok_def refs_ok_def)
    ultimately show ?thesis by auto
  qed
  then have "released s1 ps1 s2 ps2"
    using released_dropped [of s1 q ps1] released_cong [of s2 "dropped q s1"] by (simp add: s2_def ps2_def)
  then have rel: "released s ps s2 ps2" using inv released_trans by (auto simp: emptying_def)
  have ext: "extra_refs s2 D p = extra_refs s D p" for p
    using extra_refs_unmap_leaf [OF ok sl(1) j, of q p] True q_def sl(2) inv
      extra_refs_pmem_pages [of s2 "set_word ?f j 0 (dropped q s1)" D p]
    by (simp add: s2_def emptying_def)
  have vm: "vmap s2 d' = (if d' = d then (vmap s1 d)(vpn ?va := None) else vmap s1 d')" if "d' \<in> D" for d'
  proof -
    have "vmap s2 = vmap (set_word ?f j 0 s1)" by (rule vmap_pmem) (simp add: s2_def)
    moreover have "tables_ok s1 D ps1" using ok by (simp add: vm_ok_def)
    ultimately show ?thesis using vmap_set_leaf [of s1 D ps1 d ?va d' 0] sl va that by simp
  qed
  have vs0: "vsteps D d s ps s1 ps1" using inv by (simp add: emptying_def)
  have st: "vstep D d s1 ps1 (set_word ?f j 0 (dropped q s1)) ps2"
  proof -
    have "(d, i, j) \<in> leaves s1 D q" using sl True j by (simp add: leaves_def q_def)
    then have "q \<noteq> d" using ok i by (auto simp: vm_ok_def leaves_ok_def)
    from vstep.clear [OF sl(1) j, unfolded sl(2), OF True q_def this] show ?thesis unfolding ps2_def .
  qed
  have vs: "vsteps D d s ps s2 ps2"
    unfolding s2_def by (rule vsteps.step [OF vsteps.step [OF vs0 st] vstep.flush])
  have "vpn ?va div 1024 = i" using vpn_parts(1) [of ?va] va by simp
  then have "emptying s D ps d i (xs @ [j]) s2 ps2"
    using inv ok2 vs rel ext nD vm i(2) unfolding emptying_def by (auto simp: s2_def)
  with e show ?thesis by blast
qed

lemma env_free_ptes:
  assumes "vm_ok s D ps" and di: "(d, i) \<in> slots s D"
  obtains s' ps' where "foldM (env_free_pte d (tab s (d, i)) i) [0..<1024] s = Some s'"
    and "emptying s D ps d i [0..<1024] s' ps'"
proof -
  have "\<exists>s'. foldM (env_free_pte d (tab s (d, i)) i) [0..<1024] s = Some s' \<and>
      (\<exists>ps'. emptying s D ps d i [0..<1024] s' ps')"
  proof (rule foldM_rule [where P = "\<lambda>xs s'. \<exists>ps'. emptying s D ps d i xs s' ps'"])
    show "\<exists>ps'. emptying s D ps d i [] s ps'" using emptying_start assms(1) by blast
    fix xs j s1
    assume "\<exists>ps'. emptying s D ps d i xs s1 ps'" and "j \<in> set [0..<1024]"
    then show "\<exists>s'. env_free_pte d (tab s (d, i)) i j s1 = Some s' \<and>
        (\<exists>ps'. emptying s D ps d i (xs @ [j]) s' ps')"
      using env_free_pte_step [OF _ di] by (metis atLeastLessThan_iff set_upt)
  qed simp
  then show thesis using that by blast
qed

section \<open>The whole address space\<close>

text \<open>The tables of directory \<open>d\<close> in the slots \<open>xs\<close>.\<close>

definition tables_of :: "kstate \<Rightarrow> nat set \<Rightarrow> nat \<Rightarrow> nat set \<Rightarrow> nat set" where
  "tables_of s D d xs = {tab s (d, i) | i. i \<in> xs \<and> (d, i) \<in> slots s D}"

definition dismantling :: "kstate \<Rightarrow> nat set \<Rightarrow> nat list \<Rightarrow> nat \<Rightarrow> nat list \<Rightarrow> kstate \<Rightarrow> nat list \<Rightarrow> bool" where
  "dismantling s D ps d xs s' ps' \<longleftrightarrow>
     vm_ok s' D ps' \<and> vsteps D d s ps s' ps' \<and> released s ps s' ps' \<and>
     (\<forall>p. extra_refs s' D p = extra_refs s D p - (if p \<in> tables_of s D d (set xs) then 1 else 0)) \<and>
     (\<forall>i \<in> set xs. \<not> pres (pmem s' d i)) \<and>
     (\<forall>i. i \<notin> set xs \<longrightarrow> pmem s' d i = pmem s d i) \<and>
     (\<forall>d' \<in> D. d' \<noteq> d \<longrightarrow> vmap s' d' = vmap s d')"

lemma no_leaves_owned:
  assumes "vm_ok s D ps" and "p \<in> D \<union> tab s ` slots s D"
  shows "leaves s D p = {}"
  using assms by (auto simp: vm_ok_def leaves_ok_def)

lemma dismantling_start: "vm_ok s D ps \<Longrightarrow> dismantling s D ps d [] s ps"
  by (simp add: dismantling_def tables_of_def)

lemma PTX_max: "unat (PTX (NOT 0)) + 1 = 1024"
  by (simp add: PTX_def jos_consts mask_eq_exp_minus_1)

lemma tables_of_snoc:
  assumes "(d, i) \<in> slots s D"
  shows "tables_of s D d (set (xs @ [i])) = insert (tab s (d, i)) (tables_of s D d (set xs))"
  using assms by (auto simp: tables_of_def)

lemma table_fresh:
  assumes "tables_ok s D ps" and "(d, i) \<in> slots s D" and "i \<notin> xs"
  shows "tab s (d, i) \<notin> tables_of s D d xs"
  using assms by (auto simp: tables_of_def tables_ok_def inj_on_eq_iff)

lemma env_free_pde_step:
  assumes ok0: "vm_ok s D ps" and own: "owned_once s D" and d: "d \<in> D" and i: "i < user_pdx"
    and inv: "dismantling s D ps d xs s1 ps1" and new: "i \<notin> set xs"
  shows "\<exists>s2 ps2. env_free_pde d i s1 = Some s2 \<and> dismantling s D ps d (xs @ [i]) s2 ps2"
proof (cases "pres (pmem s d i)")
  case False
  moreover have "pmem s1 d i = pmem s d i" using inv new by (simp add: dismantling_def)
  moreover have "tables_of s D d (set (xs @ [i])) = tables_of s D d (set xs)"
    using False by (auto simp: tables_of_def slots_def)
  ultimately show ?thesis using inv by (auto simp: env_free_pde_def pres_def dismantling_def)
next
  case True
  have m: "pmem s1 d i = pmem s d i" using inv new by (simp add: dismantling_def)
  have ok1: "vm_ok s1 D ps1" using inv by (simp add: dismantling_def)
  have di0: "(d, i) \<in> slots s D" and di: "(d, i) \<in> slots s1 D" using True d i m by (auto simp: slots_def)
  define f where "f = tab s1 (d, i)"
  have f0: "f = tab s (d, i)" by (simp add: f_def tab_def m)
  from env_free_ptes [OF ok1 di] obtain s2 ps2 where
    loop: "foldM (env_free_pte d f i) [0..<1024] s1 = Some s2"
    and em: "emptying s1 D ps1 d i [0..<1024] s2 ps2" unfolding f_def by blast
  have ok2: "vm_ok s2 D ps2" using em by (simp add: emptying_def)
  note sl = emptying_slot [OF em di]
  have empty: "\<forall>j<1024. \<not> pres (pmem s2 f j)" using em by (simp add: emptying_def f_def)
  let ?s3 = "set_word d i 0 s2"
  have f2: "f = tab s2 (d, i)" using sl(2) f_def by simp
  note cl = vm_ok_clear_slot [OF ok2 sl(1) f2 empty]
  have n: "npages s2 = npages s1" using em non_memD vsteps_non_mem by (metis emptying_def)
  have fn: "f < npages ?s3" using cl(2) by simp
  note dr = vm_ok_dropped [OF cl(1) fn cl(3,4,6,7,5)]
  have eq: "env_free_pde d i s1 = Some (dropped f ?s3)"
    using True m loop dr(2) cl(2) KADDR_frame [of "pmem s d i" "npages s1"] n PTX_max f0
    by (simp add: env_free_pde_def pres_def pa2page_def tab_def fr_def)
  have ref: "pp_ref (pages ?s3 f) = 1"
  proof -
    have "extra_refs s2 D f = extra_refs s D f"
      using em inv table_fresh [OF _ di0 new, of ps] ok0 f0
      by (simp add: emptying_def dismantling_def vm_ok_def)
    moreover have "leaves s D f = {}" using no_leaves_owned [OF ok0, of f] di0 f0 by auto
    moreover have "leaves s2 D f = {}" using cl(5,8) by blast
    moreover have "pp_ref (pages s f) = 1" using own di0 f0 by (auto simp: owned_once_def)
    ultimately show ?thesis by (simp add: extra_refs_def word_uint_eq_iff)
  qed
  have rel: "released s ps (dropped f ?s3) (f # ps2)"
  proof -
    have "released s2 ps2 ?s3 ps2" by (rule released_same_pages) simp
    moreover have "released ?s3 ps2 (dropped f ?s3) (f # ps2)" using released_dropped [of ?s3 f ps2] ref by simp
    ultimately show ?thesis using em inv released_trans unfolding emptying_def dismantling_def by meson
  qed
  have ext: "extra_refs (dropped f ?s3) D p = extra_refs s2 D p - (if p = f then 1 else 0)" for p
  proof -
    have "leaves (dropped f ?s3) D p = leaves s2 D p"
      using slots_pmem [of "dropped f ?s3" ?s3] cl(8) [of p] by simp
    then show ?thesis using ref by (simp add: extra_refs_def)
  qed
  have "vm_ok (dropped f ?s3) D (f # ps2)" using dr(1) ref by simp
  moreover have "vmap (dropped f ?s3) d' = vmap s2 d'" if "d' \<in> D" for d'
    using vmap_pmem [of "dropped f ?s3" ?s3] cl(9) [OF that] by simp
  moreover have "vsteps D d s ps (dropped f ?s3) (f # ps2)"
  proof -
    have "vstep D d s2 ps2 (dropped f ?s3) (f # ps2)" 
      using vstep.uninstall [OF sl(1) f2 empty, of d ps2] ref cl(4) d by auto
    moreover have "vsteps D d s1 ps1 s2 ps2" using em by (simp add: emptying_def)
    moreover have "vsteps D d s ps s1 ps1" using inv by (simp add: dismantling_def)
    ultimately show ?thesis using vsteps_trans vsteps.step by blast
  qed
  moreover have "f \<notin> tables_of s D d (set xs)"
    using table_fresh [OF _ di0 new, of ps] ok0 f0 by (simp add: vm_ok_def)
  ultimately have "dismantling s D ps d (xs @ [i]) (dropped f ?s3) (f # ps2)"
    using em inv rel ext tables_of_snoc [OF di0] f0 d unfolding dismantling_def emptying_def by auto
  with eq show ?thesis by blast
qed

lemma env_free_pdes:
  assumes "vm_ok s D ps" and "owned_once s D" and "d \<in> D"
  obtains s' ps' where "foldM (env_free_pde d) [0..<user_pdx] s = Some s'"
    and "dismantling s D ps d [0..<user_pdx] s' ps'"
proof -
  have "\<exists>s'. foldM (env_free_pde d) [0..<user_pdx] s = Some s' \<and>
      (\<exists>ps'. dismantling s D ps d [0..<user_pdx] s' ps')"
  proof (rule foldM_rule [where P = "\<lambda>xs s'. \<exists>ps'. dismantling s D ps d xs s' ps'"])
    show "\<exists>ps'. dismantling s D ps d [] s ps'" using dismantling_start assms(1) by blast
    fix xs i s1
    assume "\<exists>ps'. dismantling s D ps d xs s1 ps'" and "i \<in> set [0..<user_pdx]" and "i \<notin> set xs"
    then show "\<exists>s'. env_free_pde d i s1 = Some s' \<and> (\<exists>ps'. dismantling s D ps d (xs @ [i]) s' ps')"
      using env_free_pde_step [OF assms] by (metis atLeastLessThan_iff set_upt)
  qed simp
  then show thesis using that by blast
qed

text \<open>A directory without user tables can leave the family of address spaces.\<close>

lemma vm_ok_leave:
  assumes ok: "vm_ok s D ps" and d: "d \<in> D" and empty: "\<forall>i < user_pdx. \<not> pres (pmem s d i)"
  shows "vm_ok s (D - {d}) ps" and "d \<notin> tab s ` slots s (D - {d})"
    and "d \<notin> tab s ` kslots s (D - {d})" and "leaves s (D - {d}) p = leaves s D p"
    and "leaves s (D - {d}) d = {}" and "d < npages s" and "d \<notin> set ps"
proof -
  have t: "tables_ok s D ps" using ok by (simp add: vm_ok_def)
  have sl: "slots s (D - {d}) = slots s D" using empty by (auto simp: slots_def)
  have ksl: "kslots s (D - {d}) \<subseteq> kslots s D" by (auto simp: kslots_def)
  have L: "leaves s (D - {d}) q = leaves s D q" for q by (simp add: leaves_def sl)
  show "vm_ok s (D - {d}) ps"
    using ok ksl unfolding vm_ok_def tables_ok_def leaves_ok_def refs_ok_def L sl by blast
  show "d \<notin> tab s ` slots s (D - {d})" "d \<notin> tab s ` kslots s (D - {d})"
    using t d ksl unfolding sl tables_ok_def by blast+
  show "leaves s (D - {d}) p = leaves s D p" by (rule L)
  show "leaves s (D - {d}) d = {}" using no_leaves_owned [OF ok] d by (simp add: L)
  show "d < npages s" "d \<notin> set ps" using t d by (auto simp: tables_ok_def)
qed

text \<open>
  The references the environment with directory \<open>d\<close> holds to frame \<open>p\<close>: one for each user
  mapping, and one if \<open>p\<close> is the directory or one of its page tables.
\<close>

definition held :: "kstate \<Rightarrow> nat \<Rightarrow> nat \<Rightarrow> nat" where
  "held s d p = card (leaves s {d} p) + (if p = d \<or> p \<in> tab s ` slots s {d} then 1 else 0)"

lemma leaves_split:
  assumes "finite D" and "d \<in> D"
  shows "card (leaves s D p) = card (leaves s {d} p) + card (leaves s (D - {d}) p)"
proof -
  have "leaves s D p = leaves s {d} p \<union> leaves s (D - {d}) p" "leaves s {d} p \<inter> leaves s (D - {d}) p = {}"
    using assms(2) by (auto simp: leaves_def slots_def)
  then show ?thesis using assms by (simp add: card_Un_disjoint finite_leaves)
qed

lemma leaves_vmap:
  assumes "\<forall>d' \<in> E. vmap s' d' = vmap s d'"
  shows "leaves s' E p = leaves s E p"
proof -
  have *: "(d, i, j) \<in> leaves t E p \<longleftrightarrow> d \<in> E \<and> i < user_pdx \<and> j < 1024 \<and> (\<exists>fl. vmap t d (i * 1024 + j) = Some (p, fl))"
    for t d i j
  proof (cases "i < user_pdx \<and> j < 1024")
    case True
    then have "i * 1024 + j < user_pdx * 1024" by (simp add: user_pdx_def)
    with True show ?thesis by (auto simp: leaves_def slots_def vmap_def Let_def)
  next
    case False
    then show ?thesis by (auto simp: leaves_def slots_def)
  qed
  show ?thesis using assms by (auto simp: *)
qed

lemma pa2page_page2pa: "p < n \<Longrightarrow> n \<le> 65536 \<Longrightarrow> pa2page n (page2pa p) = Some p"
  by (simp add: pa2page_def PGNUM_def jos_consts drop_bit_page2pa unat_of_nat)

lemma tables_of_all: "d \<in> D \<Longrightarrow> tables_of s D d (set [0..<user_pdx]) = tab s ` slots s {d}"
  by (auto simp: tables_of_def slots_def)

text \<open>The loop over the directory drops every reference but the one to the directory itself.\<close>

lemma dismantled_refs:
  assumes ok: "vm_ok s D ps" and own: "owned_once s D" and d: "d \<in> D"
    and dis: "dismantling s D ps d [0..<user_pdx] s1 ps1"
  shows "unat (pp_ref (pages s1 p)) + held s d p = unat (pp_ref (pages s p)) + (if p = d then 1 else 0)"
    and "pp_ref (pages s1 d) = 1"
proof -
  have fin: "finite D" using ok by (simp add: vm_ok_def tables_ok_def)
  have ok1: "vm_ok s1 D ps1" and v: "\<forall>d' \<in> D - {d}. vmap s1 d' = vmap s d'"
    using dis by (auto simp: dismantling_def)
  have "\<forall>i < user_pdx. \<not> pres (pmem s1 d i)" using dis by (simp add: dismantling_def)
  note lv = vm_ok_leave [OF ok1 d this]
  have L: "card (leaves s1 D q) = card (leaves s D q) - card (leaves s {d} q)" for q
    using lv(4) [of q] leaves_vmap [OF v, of q] leaves_split [OF fin d, of s q] by simp
  have Le: "card (leaves s {d} q) \<le> card (leaves s D q)" for q
    using leaves_split [OF fin d, of s q] by simp
  have ext: "extra_refs s1 D q = extra_refs s D q - (if q \<in> tab s ` slots s {d} then 1 else 0)" for q
    using dis tables_of_all [OF d] by (simp add: dismantling_def)
  have nd: "d \<notin> tab s ` slots s {d}"
  proof -
    have "slots s {d} \<subseteq> slots s D" using d by (auto simp: slots_def)
    moreover have "tab s ` slots s D \<inter> D = {}" using ok unfolding vm_ok_def tables_ok_def by blast
    ultimately show ?thesis using d by blast
  qed
  have sum: "unat (pp_ref (pages s1 q)) + held s d q = unat (pp_ref (pages s q)) + (if q = d then 1 else 0)" for q
    using ext [of q] L [of q] Le [of q] nd
    by (auto simp add: extra_refs_def held_def of_nat_diff simp del: of_nat_unat)
  then show "unat (pp_ref (pages s1 p)) + held s d p = unat (pp_ref (pages s p)) + (if p = d then 1 else 0)" .
  have "leaves s D d = {}" using no_leaves_owned [OF ok, of d] d by simp
  moreover have "leaves s {d} d \<subseteq> leaves s D d" using d by (auto simp: leaves_def slots_def)
  ultimately have "held s d d = 1" by (simp add: held_def)
  moreover have "pp_ref (pages s d) = 1" using own d by (simp add: owned_once_def)
  ultimately show "pp_ref (pages s1 d) = 1" using sum [of d] by (simp add: word_unat_eq_iff)
qed

theorem env_free_correct:
  assumes ok: "vm_ok s D ps" and own: "owned_once s D" and d: "d \<in> D"
    and e: "env_pgdir (envs s e) = Some d"
  obtains s' ps' where "env_free e s = Some s'" and "vm_ok s' (D - {d}) ps'"
    and "\<And>d'. d' \<in> D - {d} \<Longrightarrow> vmap s' d' = vmap s d'"
    and "\<And>p. unat (pp_ref (pages s' p)) + held s d p = unat (pp_ref (pages s p))"
    and "released s ps s' ps'"
    and "envs s' = (envs s)(e := (envs s e)\<lparr>env_pgdir := None, env_status := ENV_FREE,
           env_link := env_free_list s\<rparr>)"
    and "env_free_list s' = Some e" and "curenv s' = curenv s"
    and "kern_pgdir s' = kern_pgdir s" "npages s' = npages s" "klock s' = klock s"
    and "cr3 s' = (if curenv s = Some e then kern_pgdir s else cr3 s)"
    and "uframes s' (D - {d}) ps' \<subseteq> uframes s D ps" and "owned_once s' (D - {d})"
    and "\<And>f. f \<notin> uframes s D ps \<Longrightarrow> pmem s' f = pmem s f"
proof -
  define s0 where "s0 = (if curenv s = Some e then s\<lparr>cr3 := kern_pgdir s\<rparr> else s)"
  have same: "pmem s0 = pmem s" "pages s0 = pages s" "npages s0 = npages s" "envs s0 = envs s"
    "env_free_list s0 = env_free_list s" "page_free_list s0 = page_free_list s" "curenv s0 = curenv s"
    by (auto simp: s0_def)
  note parts = slots_pmem [OF same(1)] vmap_pmem [OF same(1)]
  have ok0: "vm_ok s0 D ps" using ok vm_ok_cong [of s0 s] same by simp
  have own0: "owned_once s0 D" using own parts same by (simp add: owned_once_def)
  from env_free_pdes [OF ok0 own0 d] obtain s1 ps1 where
    loop: "foldM (env_free_pde d) [0..<user_pdx] s0 = Some s1"
    and dis: "dismantling s0 D ps d [0..<user_pdx] s1 ps1" by blast
  have ok1: "vm_ok s1 D ps1" and vs: "vsteps D d s0 ps s1 ps1" and rel1: "released s ps s1 ps1"
    using dis same by (auto simp: dismantling_def released_def)
  note nm = vsteps_non_mem [OF vs]
  have "\<forall>i < user_pdx. \<not> pres (pmem s1 d i)" using dis by (simp add: dismantling_def)
  note lv = vm_ok_leave [OF ok1 d this]
  note refs = dismantled_refs [OF ok0 own0 d dis]
  let ?s2 = "upd_env e (\<lambda>x. x\<lparr>env_pgdir := None\<rparr>) s1"
  have p2: "slots ?s2 = slots s1 \<and> kslots ?s2 = kslots s1 \<and> tab ?s2 = tab s1 \<and> leaves ?s2 = leaves s1"
    by (rule slots_pmem) simp
  have ok2: "vm_ok ?s2 (D - {d}) ps1" using lv(1) vm_ok_cong [of ?s2 s1] by simp
  note dr = vm_ok_dropped [OF ok2, of d] 
  have dec: "page_decref d ?s2 = Some (dropped d ?s2)" "vm_ok (dropped d ?s2) (D - {d}) (d # ps1)"
    using dr lv p2 refs(2) by simp_all
  let ?s3 = "dropped d ?s2"
  let ?s' = "?s3\<lparr>envs := (envs ?s3)(e := (envs ?s3 e)\<lparr>env_status := ENV_FREE,
                     env_link := env_free_list ?s3\<rparr>), env_free_list := Some e\<rparr>"
  have "npages s1 \<le> 65536" using ok1 by (simp add: vm_ok_def phys_ok_def)
  then have "env_free e s = Some ?s'"
    using loop dec(1) pa2page_page2pa [of d "npages s1"] lv(6) e same user_pdx_UTOP
    by (simp add: env_free_def s0_def [symmetric])
  moreover have "vm_ok ?s' (D - {d}) (d # ps1)" using dec(2) vm_ok_cong [of ?s' ?s3] by simp
  moreover have "vmap ?s' d' = vmap s d'" if "d' \<in> D - {d}" for d'
    using that dis vmap_pmem [of ?s' s1] parts by (simp add: dismantling_def)
  moreover have "unat (pp_ref (pages ?s' p)) + held s d p = unat (pp_ref (pages s p))" for p
    using refs(1) [of p] refs(2) parts same by (auto simp: held_def)
  moreover have "released s ps ?s' (d # ps1)"
  proof (rule released_trans [OF rel1])
    have "released s1 ps1 ?s2 ps1" by (rule released_same_pages) simp
    moreover have "released ?s2 ps1 ?s3 (d # ps1)" using released_dropped [of ?s2 d ps1] refs(2) by simp
    ultimately show "released s1 ps1 ?s' (d # ps1)"
      using released_cong [of ?s' ?s3] released_trans by fastforce
  qed
  moreover have ef: "env_free_list ?s3 = env_free_list s" "envs s1 = envs s" "curenv s1 = curenv s"
    using non_memD [OF nm] same non_memD [OF non_mem_dropped [of d ?s2]] by simp_all
  moreover have "envs ?s' = (envs s)(e := (envs s e)\<lparr>env_pgdir := None, env_status := ENV_FREE,
           env_link := env_free_list s\<rparr>)" using ef by simp
  moreover have "kern_pgdir ?s' = kern_pgdir s" "npages ?s' = npages s" "klock ?s' = klock s"
    "cr3 ?s' = (if curenv s = Some e then kern_pgdir s else cr3 s)"
    using non_memD [OF nm] non_memD [OF non_mem_dropped [of d ?s2]] by (simp_all add: s0_def)
  moreover have U: "uframes s1 D ps1 \<subseteq> uframes s D ps" "\<And>f. f \<notin> uframes s D ps \<Longrightarrow> pmem s1 f = pmem s f"
  proof -
    have "uframes s0 D ps \<union> {d} = uframes s D ps"
      using uframes_cong [OF same(1), of D ps] d by (auto simp: uframes_def)
    from vsteps_uframes(1,2) [OF vs ok0, unfolded this] same(1)
    show "uframes s1 D ps1 \<subseteq> uframes s D ps" "\<And>f. f \<notin> uframes s D ps \<Longrightarrow> pmem s1 f = pmem s f" by simp_all
  qed
  moreover have "uframes ?s' (D - {d}) (d # ps1) \<subseteq> uframes s D ps"
  proof (rule subset_trans [OF _ U(1)])
    have "uframes ?s' (D - {d}) (d # ps1) = uframes s1 (D - {d}) (d # ps1)" by (rule uframes_cong) simp
    then show "uframes ?s' (D - {d}) (d # ps1) \<subseteq> uframes s1 D ps1"
      using d by (simp only:) (intro uframes_mono, auto simp: uframes_def)
  qed
  moreover have "owned_once ?s' (D - {d})"
  proof -
    have "owned_once s1 D" by (rule vsteps_uframes(3) [OF vs ok0 own0])
    then have "owned_once s1 (D - {d})" unfolding owned_once_def by (auto simp: slots_def)
    moreover have "tab ?s' ` slots ?s' (D - {d}) = tab s1 ` slots s1 (D - {d})" using slots_pmem [of ?s' s1] by simp
    ultimately show ?thesis using lv(2) unfolding owned_once_def by auto
  qed
  ultimately show thesis by (intro that [of ?s' "d # ps1"]) simp_all
qed

section \<open>Properties\<close>

text \<open>The small machine with environment 0 alive on the page directory in frame 1.\<close>

definition demo1 :: kstate where
  "demo1 = demo\<lparr>envs := (envs demo)(0 := demo_env\<lparr>env_id := 0x1000, env_status := ENV_RUNNABLE,
     env_pgdir := Some 1\<rparr>)\<rparr>"

lemma demo1_ok: "vm_ok demo1 {1} [2, 3]" "owned_once demo1 {1}"
proof -
  show "vm_ok demo1 {1} [2, 3]" using demo_vm_ok vm_ok_cong [of demo1 demo] by (simp add: demo1_def)
  have "slots demo1 {1} = {}" using slots_pmem [of demo1 demo] demo_slots by (simp add: demo1_def)
  then show "owned_once demo1 {1}" by (simp add: owned_once_def demo1_def)
qed

text \<open>
  (C7) \<^verbatim>\<open>env_free\<close> never panics on a live environment.  It removes its address space and
  leaves every other one as it was.  Each frame loses exactly the references the environment
  held: one for each user mapping, and one for the directory and for each of its page
  tables.  The frames on the free list afterwards are those of before and those whose last
  reference was dropped, and the environment is at the head of the list of free environments.
\<close>

theorem env_free_returns_memory:
  assumes "vm_ok s D ps" and "owned_once s D" and "d \<in> D" and "env_pgdir (envs s e) = Some d"
  shows "\<exists>s' ps'. env_free e s = Some s' \<and> vm_ok s' (D - {d}) ps' \<and>
     (\<forall>d' \<in> D - {d}. vmap s' d' = vmap s d') \<and>
     (\<forall>p. unat (pp_ref (pages s' p)) + held s d p = unat (pp_ref (pages s p))) \<and>
     set ps' = set ps \<union> {p. pp_ref (pages s p) \<noteq> 0 \<and> pp_ref (pages s' p) = 0} \<and>
     envs s' = (envs s)(e := (envs s e)\<lparr>env_pgdir := None, env_status := ENV_FREE,
           env_link := env_free_list s\<rparr>) \<and>
     env_free_list s' = Some e"
  by (rule env_free_correct [OF assms]) (fastforce simp: released_def)

theorem env_free_returns_memory_witness:
  "\<exists>s' ps'. env_free 0 demo1 = Some s' \<and> vm_ok s' ({1} - {1}) ps' \<and>
     (\<forall>d' \<in> {1} - {1}. vmap s' d' = vmap demo1 d') \<and>
     (\<forall>p. unat (pp_ref (pages s' p)) + held demo1 1 p = unat (pp_ref (pages demo1 p))) \<and>
     set ps' = set [2, 3] \<union> {p. pp_ref (pages demo1 p) \<noteq> 0 \<and> pp_ref (pages s' p) = 0} \<and>
     envs s' = (envs demo1)(0 := (envs demo1 0)\<lparr>env_pgdir := None, env_status := ENV_FREE,
           env_link := env_free_list demo1\<rparr>) \<and>
     env_free_list s' = Some 0"
  by (rule env_free_returns_memory [OF demo1_ok]) (simp_all add: demo1_def)

end
