(* ===== verification/Env_Alloc.thy ===== *)
theory Env_Alloc
  imports Env_Free
begin

text \<open>
  Creating an environment: the identifiers \<^verbatim>\<open>env_alloc\<close> hands out, the free list of \<^verbatim>\<open>envs\<close>,
  and the new address space, which shares the kernel half with the boot page directory and
  has no user mapping.
\<close>

section \<open>Identifiers\<close>

lemma NENV_mask: "word_of_nat NENV - 1 = (mask 10 :: u32)"
  by (simp add: jos_consts mask_eq_exp_minus_1)

lemma low10_split: "(w :: u32) AND NOT (mask 10) = push_bit 10 (drop_bit 10 w)"
  by (rule bit_word_eqI) (auto simp: bit_simps)

lemma next_generation_low: "take_bit 10 (next_generation old) = 0"
  by (auto simp: next_generation_def Let_def NENV_mask jos_consts low10_split bit_simps take_bit_push_bit
      intro!: bit_word_eqI)

lemma next_generation_pos: "0 < sint (next_generation old)"
  by (auto simp: next_generation_def Let_def jos_consts)

lemma take_bit_nat_self: "e < 1024 \<Longrightarrow> take_bit 10 (word_of_nat e :: u32) = word_of_nat e"
  by (simp add: take_bit_eq_mod word_unat_eq_iff unat_mod_distrib unat_of_nat)

lemma new_id_parts:
  assumes "e < NENV"
  shows "ENVX (next_generation old OR word_of_nat e) = e"
    and "drop_bit 10 (next_generation old OR word_of_nat e) = drop_bit 10 (next_generation old)"
proof -
  have e: "e < 1024" using assms by (simp add: jos_consts)
  have "take_bit 10 (next_generation old OR word_of_nat e) = (word_of_nat e :: u32)"
    using take_bit_nat_self [OF e] next_generation_low [of old] by (simp add: take_bit_or)
  then show "ENVX (next_generation old OR word_of_nat e) = e"
    using e by (simp add: ENVX_def and_3FF unat_of_nat)
  have "drop_bit 10 (word_of_nat e :: u32) = 0"
    using e by (simp add: drop_bit_eq_div word_unat_eq_iff unat_div_distrib unat_of_nat)
  then show "drop_bit 10 (next_generation old OR word_of_nat e) = drop_bit 10 (next_generation old)"
    by (simp add: drop_bit_or)
qed

lemma unat_drop10: "unat (drop_bit 10 (w :: u32)) = unat w div 1024"
  by (simp add: drop_bit_eq_div unat_div_distrib)

text \<open>Every generation differs from the one before it, also when the counter wraps around.\<close>

lemma next_generation_differs: "drop_bit 10 (next_generation old) \<noteq> drop_bit 10 old"
proof
  assume same: "drop_bit 10 (next_generation old) = drop_bit 10 old"
  let ?g = "push_bit 10 (drop_bit 10 (old + 4096))"
  have n: "next_generation old = (if sint ?g \<le> 0 then 4096 else ?g)"
    by (simp add: next_generation_def Let_def NENV_mask low10_split) (simp add: jos_consts)
  show False
  proof (cases "sint ?g \<le> 0")
    case True
    have "next_generation old = 4096" using True n by simp
    then have "unat (drop_bit 10 old) = unat (drop_bit 10 (4096 :: u32))" using same by simp
    then have "unat old div 1024 = 4" by (simp add: unat_drop10)
    then have "unat old < 5120" "4096 \<le> unat old"
      using div_mult_mod_eq [of "unat old" 1024] mod_less_divisor [of 1024 "unat old"] by linarith+
    then have "unat (old + 4096) < 9216" "8192 \<le> unat (old + 4096)" by (simp_all add: unat_word_ariths)
    then have "unat (old + 4096) div 1024 = 8" by (intro div_nat_eqI) auto
    then have "drop_bit 10 (old + 4096) = 8" by (simp add: word_unat_eq_iff unat_drop10)
    then show False using True by simp
  next
    case False
    have "drop_bit 10 ?g = drop_bit 10 (old + 4096)"
      by (rule bit_word_eqI) (auto simp: bit_simps dest: bit_imp_le_length)
    then have "unat (old + 4096) div 1024 = unat old div 1024"
      using False same n unat_drop10 [of old] unat_drop10 [of "old + 4096"] by simp
    moreover have "unat old < 2 ^ 32" using unsigned_less [of old] by simp
    ultimately show False by (auto simp: unat_plus_if' split: if_splits)
  qed
qed

lemma new_id_stale: "e < NENV \<Longrightarrow> next_generation old OR word_of_nat e \<noteq> old"
  using next_generation_differs [of old] new_id_parts(2) [of e old] by metis

lemma new_id_pos:
  assumes "e < NENV"
  shows "0 < sint (next_generation old OR word_of_nat e)"
proof -
  let ?g = "next_generation old" and ?e = "word_of_nat e :: u32"
  have e: "e < 1024" using assms by (simp add: jos_consts)
  have sg: "bit w 31 \<longleftrightarrow> sint w < 0" for w :: u32 using bit_last_iff [of w] by simp
  have z: "sint w = 0 \<longleftrightarrow> w = 0" for w :: u32
    using word_eq_iff_signed [of w 0, where 'a = int] by simp
  have "\<not> bit ?g 31" using next_generation_pos [of old] by (simp add: sg)
  moreover have "\<not> bit (take_bit 10 ?e) 31" by (simp add: bit_take_bit_iff)
  then have "\<not> bit ?e 31" using take_bit_nat_self [OF e] by metis
  ultimately have nb: "\<not> bit (?g OR ?e) 31" by (simp add: bit_or_iff)
  moreover have "?g OR ?e \<noteq> 0"
    using next_generation_pos [of old] by (auto simp: or_eq_0_iff)
  ultimately show ?thesis using sg [of "?g OR ?e"] z [of "?g OR ?e"] by simp
qed

section \<open>The new address space\<close>

text \<open>
  The boot page directory is fit to be a template: nothing mapped in the user half, and its
  kernel tables are neither free nor user pages.
\<close>

definition template_ok :: "kstate \<Rightarrow> nat set \<Rightarrow> nat list \<Rightarrow> bool" where
  "template_ok s D ps \<longleftrightarrow>
     (\<forall>i < user_pdx. \<not> pres (pmem s (kern_pgdir s) i)) \<and> kern_pgdir s \<notin> set ps \<and>
     (\<forall>t \<in> tab s ` kslots s {kern_pgdir s}. t < npages s \<and> t \<notin> set ps \<and> t \<notin> D \<and>
        t \<notin> tab s ` slots s D \<and> leaves s D t = {})"

definition new_dir :: "nat \<Rightarrow> nat list \<Rightarrow> kstate \<Rightarrow> kstate" where
  "new_dir p ps s =
     (incref p (popped p ps s))\<lparr>pmem := (pmem s)(p := (pmem s (kern_pgdir s))
        (unat (PDX UVPT) := (page2pa p OR PTE_P) OR PTE_U))\<rparr>"

lemma new_dir_pmem:
  "pmem (new_dir p ps s) f i =
     (if f = p then if i = unat (PDX UVPT) then (page2pa p OR PTE_P) OR PTE_U else pmem s (kern_pgdir s) i
      else pmem s f i)"
  by (simp add: new_dir_def)

lemma PDX_UVPT: "unat (PDX 0xEF400000) = 957"
  by (simp add: unat_PDX)

lemma vm_ok_new_dir:
  assumes ok: "vm_ok s D (p # ps)" and tm: "template_ok s D (p # ps)"
  shows "vm_ok (new_dir p ps s) (insert p D) ps"
    and "vmap (new_dir p ps s) p n = None"
    and "d \<in> D \<Longrightarrow> vmap (new_dir p ps s) d = vmap s d"
    and "owned_once s D \<Longrightarrow> owned_once (new_dir p ps s) (insert p D)"
proof -
  let ?s' = "new_dir p ps s" and ?k = "kern_pgdir s"
  have t: "tables_ok s D (p # ps)" and ph: "phys_ok s (p # ps)" using ok by (auto simp: vm_ok_def)
  have p: "p < npages s" "p \<notin> D" "p \<notin> tab s ` slots s D" "p \<notin> tab s ` kslots s D" "p \<notin> set ps"
    "pp_ref (pages s p) = 0" "?k \<noteq> p"
    using t ph tm by (auto simp: tables_ok_def phys_ok_def free_list_def template_ok_def)
  note m = new_dir_pmem [of p ps s]
  have sl: "slots ?s' (insert p D) = slots s D"
    using tm p(2) by (auto simp: slots_def m PDX_UVPT user_pdx_def template_ok_def split: if_splits)
  have tb: "tab ?s' x = tab s x" if "fst x \<in> D" for x
    using that p(2) by (cases x) (auto simp: tab_def m)
  have tbs: "tab ?s' ` slots s D = tab s ` slots s D"
    using tb by (intro image_cong) (auto simp: slots_def)
  have L: "leaves ?s' (insert p D) q = leaves s D q" for q
  proof (intro set_eqI)
    fix x :: "nat \<times> nat \<times> nat"
    obtain d i j where x: "x = (d, i, j)" by (cases x)
    have "tab s (d, i) \<noteq> p \<and> d \<in> D" if "(d, i) \<in> slots s D"
      using that p(3) by (auto simp: slots_def)
    then show "x \<in> leaves ?s' (insert p D) q \<longleftrightarrow> x \<in> leaves s D q"
      using tb [of "(d, i)"] by (auto simp: x leaves_def sl m)
  qed
  have ktabs: "tab ?s' ` kslots ?s' (insert p D) \<subseteq> tab s ` kslots s D \<union> tab s ` kslots s {?k}"
  proof
    fix f assume "f \<in> tab ?s' ` kslots ?s' (insert p D)"
    then obtain d i where x: "(d, i) \<in> kslots ?s' (insert p D)" "f = tab ?s' (d, i)" by auto
    show "f \<in> tab s ` kslots s D \<union> tab s ` kslots s {?k}"
    proof (cases "d = p")
      case True
      with x have "(?k, i) \<in> kslots s {?k}" "f = tab s (?k, i)" by (auto simp: kslots_def tab_def m)
      then show ?thesis by blast
    next
      case False
      with x have "(d, i) \<in> kslots s D" "f = tab s (d, i)" by (auto simp: kslots_def tab_def m)
      then show ?thesis by blast
    qed
  qed
  have npg: "npages ?s' = npages s" by (simp add: new_dir_def popped_def)
  have pk: "p \<notin> tab s ` kslots s {?k}" using tm unfolding template_ok_def by auto
  have "tables_ok ?s' (insert p D) ps"
  proof -
    have inj: "inj_on (tab ?s') (slots s D)" using t tb unfolding tables_ok_def
      by (auto simp: inj_on_def slots_def)
    have "tab s ` kslots s {?k} \<subseteq> {..<npages s} - set ps - insert p D - tab s ` slots s D"
      using tm pk unfolding template_ok_def by auto
    moreover have "tab s ` kslots s D \<subseteq> {..<npages s} - set ps - insert p D - tab s ` slots s D"
      using t p unfolding tables_ok_def by auto
    ultimately have "tab ?s' ` kslots ?s' (insert p D) \<subseteq>
        {..<npages s} - set ps - insert p D - tab s ` slots s D"
      by (intro subset_trans [OF ktabs] Un_least)
    with inj show ?thesis using t p unfolding tables_ok_def sl tbs npg by auto
  qed
  moreover have "leaves_ok ?s' (insert p D)"
  proof -
    have "q < npages s \<and> q \<notin> insert p D \<and> q \<notin> tab s ` slots s D \<and> q \<notin> tab ?s' ` kslots ?s' (insert p D)"
      if q: "leaves s D q \<noteq> {}" for q
    proof -
      have "q \<notin> tab s ` kslots s {?k}" using tm q unfolding template_ok_def by auto
      moreover have "q \<noteq> p" using leaf_not_free [OF ok q] by auto
      moreover have "q < npages s \<and> q \<notin> D \<and> q \<notin> tab s ` slots s D \<and> q \<notin> tab s ` kslots s D"
        using ok q by (simp add: vm_ok_def leaves_ok_def)
      ultimately show ?thesis using ktabs by auto
    qed
    then show ?thesis unfolding leaves_ok_def L sl tbs npg by simp
  qed
  moreover have "refs_ok ?s' (insert p D)"
  proof -
    have "leaves s D p = {}" using leaf_not_free [OF ok, of p] by auto
    then show ?thesis using ok unfolding refs_ok_def L
      by (auto simp: vm_ok_def refs_ok_def new_dir_def popped_def)
  qed
  moreover have "phys_ok ?s' ps"
    unfolding new_dir_def phys_ok_frame
    using phys_ok_popped [OF ph] p(5) by (intro phys_ok_set_ref) auto
  ultimately show "vm_ok ?s' (insert p D) ps" by (simp add: vm_ok_def)
  have "\<not> pres (pmem ?s' p (n div 1024))" if n: "n < user_pdx * 1024"
  proof -
    have "n div 1024 < user_pdx" using n by (rule less_mult_imp_div_less)
    moreover from this have "n div 1024 \<noteq> 957" by (simp add: user_pdx_def)
    ultimately show ?thesis using tm by (simp add: m PDX_UVPT template_ok_def)
  qed
  then show "vmap ?s' p n = None" by (intro vmap_None) blast
  show "vmap ?s' d = vmap s d" if "d \<in> D"
  proof
    fix n :: nat
    have "tab s (d, n div 1024) \<noteq> p" if "n < user_pdx * 1024" "pres (pmem s d (n div 1024))"
    proof -
      have "(d, n div 1024) \<in> slots s D"
        using that \<open>d \<in> D\<close> by (simp add: slots_def less_mult_imp_div_less)
      then show ?thesis using p(3) by blast
    qed
    note ne = this
    have d: "d \<noteq> p" "tab ?s' (d, n div 1024) = tab s (d, n div 1024)" using that p(2) tb by auto
    show "vmap ?s' d n = vmap s d n"
    proof (cases "n < user_pdx * 1024 \<and> pres (pmem s d (n div 1024))")
      case True
      then show ?thesis using ne d by (simp add: vmap_def Let_def m)
    next
      case False
      then show ?thesis using d by (simp add: vmap_None m)
    qed
  qed
  show "owned_once ?s' (insert p D)" if "owned_once s D"
    using that p unfolding owned_once_def sl tbs by (auto simp: new_dir_def popped_def)
qed

lemma env_setup_vm_Nil: "phys_ok s [] \<Longrightarrow> env_setup_vm e s = Some (- E_NO_MEM, s)"
  by (simp add: env_setup_vm_def page_alloc_Nil)

lemma env_setup_vm_Cons:
  assumes ph: "phys_ok s (p # ps)" and k: "kern_pgdir s \<noteq> p"
  shows "env_setup_vm e s = Some (0, upd_env e (\<lambda>x. x\<lparr>env_pgdir := Some p\<rparr>) (new_dir p ps s))"
proof -
  have p: "p < npages s" "npages s \<le> 65536" using ph by (auto simp: phys_ok_def free_list_def)
  have az: "ALLOC_ZERO AND ALLOC_ZERO \<noteq> 0" by (simp add: jos_consts)
  show ?thesis
    using page2kva_frame [OF p(2,1)] az k
    by (simp add: env_setup_vm_def page_alloc_Cons [OF ph] memset_page_def new_dir_def popped_def Let_def)
qed

section \<open>The free list of environments\<close>

definition env_list :: "kstate \<Rightarrow> nat list \<Rightarrow> bool" where
  "env_list s es \<longleftrightarrow> chain env_link (envs s) (env_free_list s) es \<and> distinct es \<and> set es \<subseteq> {..<NENV}"

lemma env_list_head: "env_list s (e # es) \<Longrightarrow> env_free_list s = Some e"
  by (simp add: env_list_def)

lemma env_list_Nil: "env_list s [] \<longleftrightarrow> env_free_list s = None"
  by (simp add: env_list_def)

text \<open>\<^verbatim>\<open>env_init\<close> threads all of \<^verbatim>\<open>envs\<close> in index order.\<close>

lemma env_init_loop:
  "chain env_link (envs (fold env_init_step (rev [n..<m]) s))
     (env_free_list (fold env_init_step (rev [n..<m]) s)) ([n..<m] @ es)
   \<and> (\<forall>i. env_id (envs (fold env_init_step (rev [n..<m]) s) i) = (if i \<in> {n..<m} then 0 else env_id (envs s i)))"
  if "chain env_link (envs s) (env_free_list s) es" and "set es \<inter> {n..<m} = {}" and "n \<le> m"
  using that
proof (induction "m - n" arbitrary: n)
  case 0
  then show ?case by simp
next
  case (Suc k)
  let ?t = "fold env_init_step (rev [Suc n..<m]) s"
  have n: "n < m" and split: "[n..<m] = n # [Suc n..<m]" using Suc by (auto simp: upt_conv_Cons)
  have "k = m - Suc n" "set es \<inter> {Suc n..<m} = {}" "Suc n \<le> m"
    using Suc.hyps(2) Suc.prems(2) n by auto
  note IH = Suc.hyps(1) [OF this(1) Suc.prems(1) this(2,3)]
  have "n \<notin> set ([Suc n..<m] @ es)" using Suc.prems n by auto
  then show ?case using IH n by (auto simp: split env_init_step_def)
qed

lemma env_init_list:
  assumes "env_free_list s = None"
  shows "env_list (env_init s) [0..<NENV]" and "i < NENV \<Longrightarrow> env_id (envs (env_init s) i) = 0"
  using env_init_loop [of s "[]" 0 NENV] assms by (auto simp: env_list_def env_init_def)

section \<open>env_alloc\<close>

definition fresh_env :: "u32 \<Rightarrow> nat \<Rightarrow> nat \<Rightarrow> Env \<Rightarrow> Env" where
  "fresh_env parent_id e p x =
     x\<lparr>env_pgdir := Some p, env_id := next_generation (env_id x) OR word_of_nat e,
       env_parent_id := parent_id, env_type := ENV_TYPE_USER, env_status := ENV_RUNNABLE,
       env_runs := 0, env_tf := fresh_tf, env_pgfault_upcall := 0, env_ipc_recving := False\<rparr>"

definition with_env :: "u32 \<Rightarrow> nat \<Rightarrow> nat list \<Rightarrow> nat \<Rightarrow> kstate \<Rightarrow> kstate" where
  "with_env parent_id p ps e s =
     (upd_env e (fresh_env parent_id e p) (new_dir p ps s))\<lparr>env_free_list := env_link (envs s e)\<rparr>"

lemma new_dir_parts [simp]:
  "envs (new_dir p ps s) = envs s" "env_free_list (new_dir p ps s) = env_free_list s"
  "npages (new_dir p ps s) = npages s" "curenv (new_dir p ps s) = curenv s"
  "kern_pgdir (new_dir p ps s) = kern_pgdir s" "klock (new_dir p ps s) = klock s"
  by (simp_all add: new_dir_def popped_def)

lemma env_alloc_cases:
  assumes "phys_ok s ps" and "env_list s es" and "kern_pgdir s \<notin> set ps"
  shows "es = [] \<Longrightarrow> env_alloc parent s = Some (- E_NO_FREE_ENV, None, s)"
    and "es \<noteq> [] \<Longrightarrow> ps = [] \<Longrightarrow> env_alloc parent s = Some (- E_NO_MEM, None, s)"
    and "es = e # es' \<Longrightarrow> ps = p # ps' \<Longrightarrow>
      env_alloc parent s = Some (0, Some e, with_env parent p ps' e s)"
proof -
  show "es = [] \<Longrightarrow> env_alloc parent s = Some (- E_NO_FREE_ENV, None, s)"
    using assms(2) by (simp add: env_alloc_def env_list_Nil)
  show "es \<noteq> [] \<Longrightarrow> ps = [] \<Longrightarrow> env_alloc parent s = Some (- E_NO_MEM, None, s)"
    using assms env_setup_vm_Nil [of s] env_list_head
    by (cases es) (simp_all add: env_alloc_def E_NO_MEM_def)
  assume es: "es = e # es'" and ps: "ps = p # ps'"
  have "env_free_list s = Some e" using assms(2) es env_list_head by simp
  moreover have "env_setup_vm e s = Some (0, upd_env e (\<lambda>x. x\<lparr>env_pgdir := Some p\<rparr>) (new_dir p ps' s))"
    using assms ps by (intro env_setup_vm_Cons) auto
  ultimately show "env_alloc parent s = Some (0, Some e, with_env parent p ps' e s)"
    by (simp add: env_alloc_def with_env_def fresh_env_def Let_def)
qed

lemma env_list_with_env:
  assumes "env_list s (e # es)"
  shows "env_list (with_env parent p ps e s) es"
proof -
  have "chain env_link (envs s) (env_link (envs s e)) es" "e \<notin> set es"
    using assms by (auto simp: env_list_def)
  then show ?thesis using assms by (simp add: env_list_def with_env_def)
qed

lemma vm_ok_with_env:
  assumes "vm_ok s D (p # ps)" and "template_ok s D (p # ps)"
  shows "vm_ok (with_env parent p ps e s) (insert p D) ps"
    and "vmap (with_env parent p ps e s) p n = None"
    and "d \<in> D \<Longrightarrow> vmap (with_env parent p ps e s) d = vmap s d"
    and "owned_once s D \<Longrightarrow> owned_once (with_env parent p ps e s) (insert p D)"
  using vm_ok_new_dir [OF assms] vm_ok_cong [of "with_env parent p ps e s" "new_dir p ps s"]
    vmap_pmem [of "with_env parent p ps e s" "new_dir p ps s"]
    slots_pmem [of "with_env parent p ps e s" "new_dir p ps s"]
  by (simp_all add: with_env_def owned_once_def)

section \<open>Properties\<close>

lemma envid2env_stale: "env_id (envs s (ENVX i)) \<noteq> i \<Longrightarrow> i \<noteq> 0 \<Longrightarrow>
    envid2env i c s = Some (- E_BAD_ENV, None)"
  by (simp add: envid2env_def)

lemma env_list_mem: "env_list s (e # es) \<Longrightarrow> e < NENV"
  by (simp add: env_list_def)

text \<open>
  (C8) \<^verbatim>\<open>env_alloc\<close> takes the first free environment and a free frame for its page directory.
  The new environment's address space is empty and the others are unchanged; its identifier
  is positive, leads back to its own slot, and differs from the identifier the slot had
  before, which from now on is refused as stale, also when the generation counter wraps.
\<close>

theorem env_alloc_fresh:
  assumes "vm_ok s D (p # ps)" and "template_ok s D (p # ps)" and "env_list s (e # es)"
  shows "\<exists>s'. env_alloc parent s = Some (0, Some e, s') \<and>
     vm_ok s' (insert p D) ps \<and> env_list s' es \<and> env_pgdir (envs s' e) = Some p \<and>
     (\<forall>n. vmap s' p n = None) \<and> (\<forall>d \<in> D. vmap s' d = vmap s d) \<and>
     0 < sint (env_id (envs s' e)) \<and> ENVX (env_id (envs s' e)) = e \<and>
     (ENVX (env_id (envs s e)) = e \<and> env_id (envs s e) \<noteq> 0 \<longrightarrow>
        envid2env (env_id (envs s e)) False s' = Some (- E_BAD_ENV, None)) \<and>
     envid2env (env_id (envs s' e)) False s' = Some (0, Some e)"
proof -
  let ?s' = "with_env parent p ps e s"
  have e: "e < NENV" using env_list_mem assms(3) by blast
  have alloc: "env_alloc parent s = Some (0, Some e, ?s')"
    using env_alloc_cases(3) [OF _ assms(3)] assms(1,2) by (simp add: vm_ok_def template_ok_def)
  have new: "env_id (envs ?s' e) = next_generation (env_id (envs s e)) OR word_of_nat e"
    "env_status (envs ?s' e) = ENV_RUNNABLE" "env_pgdir (envs ?s' e) = Some p"
    by (simp_all add: with_env_def fresh_env_def)
  note id = new_id_parts(1) [OF e] new_id_pos [OF e] new_id_stale [OF e]
  have "envid2env (env_id (envs s e)) False ?s' = Some (- E_BAD_ENV, None)"
    if "ENVX (env_id (envs s e)) = e" "env_id (envs s e) \<noteq> 0"
    using that id(3) new by (intro envid2env_stale) auto
  moreover have "envid2env (env_id (envs ?s' e)) False ?s' = Some (0, Some e)"
    using id(1,2) [of "env_id (envs s e)"] new by (auto simp: envid2env_def jos_consts Let_def)
  ultimately show ?thesis
    using alloc vm_ok_with_env [OF assms(1,2)] env_list_with_env [OF assms(3)] id new by auto
qed

text \<open>The small machine with environments 0 and 1 free, the slot of 0 used before.\<close>

definition demo2 :: kstate where
  "demo2 = demo\<lparr>envs := (envs demo)(0 := demo_env\<lparr>env_id := 0x7FFFF000, env_link := Some 1\<rparr>),
     env_free_list := Some 0, kern_pgdir := 4\<rparr>"

lemma demo2_ok: "vm_ok demo2 {1} [2, 3]" "template_ok demo2 {1} [2, 3]" "env_list demo2 [0, 1]"
proof -
  show "vm_ok demo2 {1} [2, 3]" using demo_vm_ok vm_ok_cong [of demo2 demo] by (simp add: demo2_def)
  show "template_ok demo2 {1} [2, 3]"
    using demo_slots slots_pmem [of demo2 demo] by (simp add: template_ok_def demo2_def)
  show "env_list demo2 [0, 1]" by (simp add: env_list_def demo2_def demo_env_def jos_consts)
qed

theorem env_alloc_fresh_witness:
  "\<exists>s'. env_alloc 0 demo2 = Some (0, Some 0, s') \<and>
     vm_ok s' (insert 2 {1}) [3] \<and> env_list s' [1] \<and> env_pgdir (envs s' 0) = Some 2 \<and>
     (\<forall>n. vmap s' 2 n = None) \<and> (\<forall>d \<in> {1}. vmap s' d = vmap demo2 d) \<and>
     0 < sint (env_id (envs s' 0)) \<and> ENVX (env_id (envs s' 0)) = 0 \<and>
     (ENVX (env_id (envs demo2 0)) = 0 \<and> env_id (envs demo2 0) \<noteq> 0 \<longrightarrow>
        envid2env (env_id (envs demo2 0)) False s' = Some (- E_BAD_ENV, None)) \<and>
     envid2env (env_id (envs s' 0)) False s' = Some (0, Some 0)"
  by (rule env_alloc_fresh [OF demo2_ok])

text \<open>
  (C9) \<^verbatim>\<open>env_init\<close> puts every environment on the free list in the order of the array, so that the
  first allocation takes \<^verbatim>\<open>envs[0]\<close>, and clears every identifier.
\<close>

theorem env_init_order:
  assumes "env_free_list s = None"
  shows "env_list (env_init s) [0..<NENV] \<and> (\<forall>i < NENV. env_id (envs (env_init s) i) = 0)"
  using env_init_list [OF assms] by blast

theorem env_init_order_witness:
  "env_list (env_init demo) [0..<NENV] \<and> env_id (envs (env_init demo) 7) = 0"
  using env_init_order [of demo] by (simp add: NENV_def LOG2NENV_def)

end
