(* ===== verification/Sched.thy ===== *)
theory Sched
  imports Environment
begin

text \<open>
  The round-robin scheduler of \<^verbatim>\<open>kern/sched.c\<close>: which environment it chooses, what the switch
  does, and that no runnable environment starves.
\<close>

section \<open>The choice\<close>

text \<open>How far slot \<open>j\<close> is from slot \<open>i\<close>, going up and around the table.\<close>

definition ring_dist :: "nat \<Rightarrow> nat \<Rightarrow> nat" where
  "ring_dist i j = (j + NENV - i) mod NENV"

lemma NENV_eq: "NENV = 1024"
  by (simp add: jos_consts)

lemma mod_NENV: "n < 2 * NENV \<Longrightarrow> n mod NENV = (if n < NENV then n else n - NENV)"
  by (simp add: NENV_eq mod_if)

lemma ring_dist_eq: "i < NENV \<Longrightarrow> j < NENV \<Longrightarrow> ring_dist i j = (if i \<le> j then j - i else j + NENV - i)"
  unfolding ring_dist_def using mod_NENV [of "j + NENV - i"] by (cases "i \<le> j") simp_all

lemma ring_dist_less: "ring_dist i j < NENV"
  by (simp add: ring_dist_def NENV_eq)

lemma ring_dist_home: "i < NENV \<Longrightarrow> j < NENV \<Longrightarrow> (i + ring_dist i j) mod NENV = j"
  by (simp add: ring_dist_eq)

lemma ring_dist_there: "i < NENV \<Longrightarrow> k < NENV \<Longrightarrow> ring_dist i ((i + k) mod NENV) = k"
  by (subst ring_dist_eq) (auto simp: mod_NENV)

lemma ring_dist_step:
  assumes "i < NENV" and "j < NENV" and "k < ring_dist i j"
  shows "ring_dist ((((i + k) mod NENV) + 1) mod NENV) j + k + 1 = ring_dist i j"
proof -
  have k: "k + 1 < NENV" using assms(3) ring_dist_less [of i j] by simp
  have "(((i + k) mod NENV) + 1) mod NENV = (i + k + 1) mod NENV" by (simp add: mod_simps)
  also have "\<dots> = (if i + k + 1 < NENV then i + k + 1 else i + k + 1 - NENV)"
    using k assms(1) by (intro mod_NENV) simp
  finally have m: "(((i + k) mod NENV) + 1) mod NENV = (if i + k + 1 < NENV then i + k + 1 else i + k + 1 - NENV)" .
  note d = ring_dist_eq [OF assms(1,2)]
  have "(if i + k + 1 < NENV then i + k + 1 else i + k + 1 - NENV) < NENV"
    using k assms(1) by (auto simp: NENV_eq)
  from ring_dist_eq [OF this assms(2)] show ?thesis
    unfolding m using assms k d by (cases "i \<le> j"; cases "i + k + 1 < NENV") auto
qed

lemma sched_start_less: "sched_start s < NENV"
  by (simp add: sched_start_def NENV_eq split: option.split)

abbreviation runnable :: "kstate \<Rightarrow> nat \<Rightarrow> bool" where
  "runnable s w \<equiv> env_status (envs s w) = ENV_RUNNABLE"

definition sched_pick :: "kstate \<Rightarrow> nat option" where
  "sched_pick s = find (runnable s) (map (\<lambda>i. (sched_start s + i) mod NENV) [0..<NENV])"

lemma sched_yield_pick: "sched_pick s = Some w \<Longrightarrow> sched_yield s = env_run w s"
  unfolding sched_yield_def sched_pick_def by (simp only: option.case)

text \<open>The environment chosen is the first runnable one from the starting slot on.\<close>

lemma sched_pick_first:
  assumes "sched_pick s = Some w"
  shows "\<exists>k < NENV. w = (sched_start s + k) mod NENV \<and> runnable s w \<and>
     (\<forall>i < k. \<not> runnable s ((sched_start s + i) mod NENV))"
proof -
  let ?f = "\<lambda>i. (sched_start s + i) mod NENV"
  from assms obtain k where "k < length (map ?f [0..<NENV])" "runnable s (map ?f [0..<NENV] ! k)"
      "w = map ?f [0..<NENV] ! k" "\<forall>j < k. \<not> runnable s (map ?f [0..<NENV] ! j)"
    unfolding sched_pick_def find_Some_iff by blast
  then show ?thesis by (intro exI [of _ k]) (simp add: nth_map)
qed

lemma sched_pick_nearest:
  assumes "sched_pick s = Some w"
  shows "runnable s w" and "w < NENV"
    and "\<And>j. j < NENV \<Longrightarrow> runnable s j \<Longrightarrow> ring_dist (sched_start s) w \<le> ring_dist (sched_start s) j"
proof -
  let ?f = "\<lambda>i. (sched_start s + i) mod NENV"
  from sched_pick_first [OF assms] obtain k where k: "k < NENV" "runnable s (?f k)" "w = ?f k"
    and least: "\<And>j. j < k \<Longrightarrow> \<not> runnable s (?f j)" by blast
  show "runnable s w" "w < NENV" using k by (simp_all add: NENV_eq)
  have kw: "ring_dist (sched_start s) w = k"
    using k(1,3) ring_dist_there [OF sched_start_less] by simp
  fix j assume j: "j < NENV" "runnable s j"
  then have "runnable s (?f (ring_dist (sched_start s) j))" using ring_dist_home [OF sched_start_less] by simp
  then show "ring_dist (sched_start s) w \<le> ring_dist (sched_start s) j"
    using least kw by (meson not_le_imp_less)
qed

lemma sched_pick_None: "sched_pick s = None \<longleftrightarrow> (\<forall>j < NENV. \<not> runnable s j)"
proof
  assume none: "sched_pick s = None"
  show "\<forall>j < NENV. \<not> runnable s j"
  proof (intro allI impI)
    fix j assume "j < NENV"
    then have "j = (sched_start s + ring_dist (sched_start s) j) mod NENV"
      using ring_dist_home [OF sched_start_less] by simp
    moreover have "\<not> runnable s ((sched_start s + i) mod NENV)" if "i < NENV" for i
      using none that by (auto simp: sched_pick_def find_None_iff)
    ultimately show "\<not> runnable s j" using ring_dist_less by metis
  qed
next
  assume "\<forall>j < NENV. \<not> runnable s j"
  then show "sched_pick s = None" by (auto simp: sched_pick_def find_None_iff NENV_eq)
qed

section \<open>The switch\<close>

text \<open>The state \<^verbatim>\<open>env_run\<close> leaves the kernel with.\<close>

definition switched :: "nat \<Rightarrow> nat \<Rightarrow> kstate \<Rightarrow> kstate" where
  "switched e pgdir s =
     (let old = (case curenv s of
            Some c \<Rightarrow> if env_status (envs s c) = ENV_RUNNING
                      then (envs s)(c := (envs s c)\<lparr>env_status := ENV_RUNNABLE\<rparr>) else envs s
          | None \<Rightarrow> envs s)
      in s\<lparr>envs := old(e := (old e)\<lparr>env_status := ENV_RUNNING, env_runs := env_runs (old e) + 1,
                                     env_cpunum := cpunum s\<rparr>),
           curenv := Some e, cr3 := pgdir, klock := False\<rparr>)"

lemma env_run_switched:
  assumes "env_pgdir (envs s e) = Some pgdir" and "klock s"
  shows "env_run e s = Some (RunEnv e, switched e pgdir s)"
  using assms by (cases "curenv s")
    (auto simp: env_run_def switched_def unlock_kernel_def env_pop_tf_def Let_def)

lemma env_run_no_pgdir: "env_pgdir (envs s e) = None \<Longrightarrow> env_run e s = None"
  by (auto simp: env_run_def Let_def split: option.split)

lemma switched_status:
  "env_status (envs (switched e pgdir s) x) =
     (if x = e then ENV_RUNNING
      else if curenv s = Some x \<and> env_status (envs s x) = ENV_RUNNING then ENV_RUNNABLE
      else env_status (envs s x))"
  by (auto simp: switched_def Let_def split: option.split)

lemma switched_id: "env_id (envs (switched e pgdir s) x) = env_id (envs s x)"
  by (auto simp: switched_def Let_def split: option.split)

section \<open>Progress\<close>

lemma nearest_step:
  assumes pick: "sched_pick s = Some w" and j: "j < NENV" "runnable s j" "w \<noteq> j"
    and next_start: "sched_start s' = (w + 1) mod NENV"
  shows "ring_dist (sched_start s') j < ring_dist (sched_start s) j"
proof -
  let ?i = "sched_start s" and ?k = "ring_dist (sched_start s) w"
  have w: "w < NENV" "?k \<le> ring_dist ?i j" using sched_pick_nearest [OF pick] j by auto
  have home: "(?i + ?k) mod NENV = w" "(?i + ring_dist ?i j) mod NENV = j"
    using ring_dist_home [OF sched_start_less] w j by auto
  then have "?k \<noteq> ring_dist ?i j" using j(3) by auto
  then have "?k < ring_dist ?i j" using w by simp
  from ring_dist_step [OF sched_start_less j(1) this] show ?thesis using home(1) next_start by simp
qed

lemma no_starvation:
  assumes pick: "\<And>n. sched_pick (\<sigma> n) = Some (w n)"
    and start: "\<And>n. sched_start (\<sigma> (Suc n)) = (w n + 1) mod NENV"
    and j: "j < NENV" "\<And>n. (\<forall>m < n. w m \<noteq> j) \<Longrightarrow> runnable (\<sigma> n) j"
  shows "\<exists>n < NENV. w n = j"
proof (rule ccontr)
  assume no: "\<not> (\<exists>n < NENV. w n = j)"
  have "n \<le> NENV \<Longrightarrow> ring_dist (sched_start (\<sigma> n)) j + n \<le> ring_dist (sched_start (\<sigma> 0)) j" for n
  proof (induction n)
    case (Suc n)
    then have "w n \<noteq> j" "runnable (\<sigma> n) j" using no j(2) by auto
    from nearest_step [OF pick j(1) this(2,1) start] Suc show ?case by simp
  qed simp
  from this [of NENV] ring_dist_less [of "sched_start (\<sigma> 0)" j] show False by simp
qed

section \<open>Properties\<close>

text \<open>
  Two runnable environments, 0 and 1; this CPU last ran \<open>c\<close>.
\<close>

definition two_envs :: "nat \<Rightarrow> kstate" where
  "two_envs c = demo\<lparr>envs := (envs demo)
     (0 := demo_env\<lparr>env_id := 0x1000, env_status := ENV_RUNNABLE, env_pgdir := Some 4\<rparr>,
      1 := demo_env\<lparr>env_id := 0x1001, env_status := ENV_RUNNABLE, env_pgdir := Some 5\<rparr>),
     curenv := Some c\<rparr>"

lemma two_envs_runnable: "runnable (two_envs c) j \<longleftrightarrow> j = 0 \<or> j = 1"
  by (simp add: two_envs_def demo_env_def jos_consts)

lemma two_envs_start: "sched_start (two_envs 0) = 1" "sched_start (two_envs 1) = 2"
  by (simp_all add: sched_start_def two_envs_def ENVX_def NENV_eq)

lemma two_envs_pick: "sched_pick (two_envs 0) = Some 1" "sched_pick (two_envs 1) = Some 0"
proof -
  have pick: "\<exists>w. sched_pick (two_envs c) = Some w \<and> (w = 0 \<or> w = 1)" for c
  proof (cases "sched_pick (two_envs c)")
    case None
    then have "\<not> runnable (two_envs c) 0" using sched_pick_None NENV_eq by simp
    then show ?thesis by (simp add: two_envs_runnable)
  next
    case (Some w)
    with sched_pick_nearest(1) [OF Some] show ?thesis by (simp add: two_envs_runnable)
  qed
  have near: "sched_pick (two_envs c) = Some w \<Longrightarrow> j = 0 \<or> j = 1 \<Longrightarrow>
      ring_dist (sched_start (two_envs c)) w \<le> ring_dist (sched_start (two_envs c)) j" for c w j
    using sched_pick_nearest(3) [of "two_envs c" w j] two_envs_runnable [of c j] by (auto simp: NENV_eq)
  show "sched_pick (two_envs 0) = Some 1"
    using pick [of 0] near [of 0 0 1] by (auto simp: two_envs_start ring_dist_def NENV_eq)
  show "sched_pick (two_envs 1) = Some 0"
    using pick [of 1] near [of 1 1 0] two_envs_start(2) by (auto simp: ring_dist_def NENV_eq)
qed

text \<open>
  (C10) If some environment is runnable, \<^verbatim>\<open>sched_yield\<close> runs one: the first runnable one among the slots
  after that of the current environment, in circular order, or among all slots from 0 up when
  this CPU has no current environment.  The switch loads the page directory of the environment
  chosen, marks it running, puts the previous one back to runnable if it was running, touches no
  other environment's status, and gives up the kernel lock.  The kernel lock is held on entry, a
  runnable environment has a page directory, and the identifier of the current environment is
  that of its slot.
\<close>

theorem sched_yield_round_robin:
  assumes "klock s" and "j < NENV" and "runnable s j"
    and "\<And>w. w < NENV \<Longrightarrow> runnable s w \<Longrightarrow> env_pgdir (envs s w) \<noteq> None"
    and "\<And>c. curenv s = Some c \<Longrightarrow> ENVX (env_id (envs s c)) = c"
  shows "\<exists>k s'. let first = (case curenv s of None \<Rightarrow> 0 | Some c \<Rightarrow> c + 1); w = (first + k) mod NENV in
     sched_yield s = Some (RunEnv w, s') \<and> k < NENV \<and> runnable s w \<and>
     (\<forall>i < k. \<not> runnable s ((first + i) mod NENV)) \<and>
     curenv s' = Some w \<and> env_pgdir (envs s w) = Some (cr3 s') \<and> \<not> klock s' \<and>
     (\<forall>x. env_status (envs s' x) =
       (if x = w then ENV_RUNNING
        else if curenv s = Some x \<and> env_status (envs s x) = ENV_RUNNING then ENV_RUNNABLE
        else env_status (envs s x)))"
proof -
  let ?first = "case curenv s of None \<Rightarrow> 0 | Some c \<Rightarrow> c + 1"
  have f: "(sched_start s + i) mod NENV = (?first + i) mod NENV" for i
    using assms(5) by (auto simp: sched_start_def mod_simps split: option.split)
  obtain w where w: "sched_pick s = Some w" using sched_pick_None [of s] assms(2,3) by fastforce
  then obtain k where k: "k < NENV" "w = (?first + k) mod NENV" "runnable s w"
      "\<forall>i < k. \<not> runnable s ((?first + i) mod NENV)"
    using sched_pick_first [OF w] unfolding f by blast
  then have "w < NENV" by (simp add: NENV_eq)
  then obtain p where p: "env_pgdir (envs s w) = Some p" using k(3) assms(4) by blast
  have y: "sched_yield s = Some (RunEnv w, switched w p s)"
    using sched_yield_pick [OF w] env_run_switched [OF p assms(1)] by simp
  have "curenv (switched w p s) = Some w" "cr3 (switched w p s) = p" "\<not> klock (switched w p s)"
    by (simp_all add: switched_def Let_def)
  then show ?thesis unfolding Let_def using k(1,3,4) p y switched_status [of w p s]
    by (intro exI [of _ k] exI [of _ "switched w p s"]) (simp add: k(2) [symmetric])
qed

text \<open>Environment 0 ran last: environment 1 is chosen, although 0 is runnable too.\<close>

theorem sched_yield_round_robin_witness:
  "\<exists>s'. sched_yield (two_envs 0) = Some (RunEnv 1, s') \<and> curenv s' = Some 1 \<and> cr3 s' = 5 \<and> \<not> klock s'"
proof -
  have r: "klock (two_envs 0)" "runnable (two_envs 0) 0" "curenv (two_envs 0) = Some 0"
    "ENVX (env_id (envs (two_envs 0) 0)) = 0" "env_pgdir (envs (two_envs 0) 1) = Some 5"
    by (simp_all add: two_envs_def ENVX_def)
  have d: "env_pgdir (envs (two_envs 0) w) \<noteq> None" if "runnable (two_envs 0) w" for w
  proof -
    have "w = 0 \<or> w = 1" using that by (simp add: two_envs_runnable)
    then show ?thesis by (auto simp: two_envs_def)
  qed
  have n: "0 < NENV" "\<And>c. Some 0 = Some c \<Longrightarrow> ENVX (env_id (envs (two_envs 0) c)) = c" using r(4) by (auto simp: NENV_eq)
  obtain k s' where k: "sched_yield (two_envs 0) = Some (RunEnv ((0 + 1 + k) mod NENV), s')"
      "\<forall>i < k. \<not> runnable (two_envs 0) ((0 + 1 + i) mod NENV)" "curenv s' = Some ((0 + 1 + k) mod NENV)"
      "env_pgdir (envs (two_envs 0) ((0 + 1 + k) mod NENV)) = Some (cr3 s')" "\<not> klock s'"
    using sched_yield_round_robin [OF r(1) n(1) r(2) d, unfolded Let_def r(3) option.case, OF _ n(2)] by blast
  have "runnable (two_envs 0) ((0 + 1 + 0) mod NENV)" by (simp add: two_envs_runnable NENV_eq)
  then have "k = 0" using k(2) by blast
  then show ?thesis using k r(5) by (simp add: NENV_eq)
qed

text \<open>
  (C11) No starvation while the environments chosen stay: let \<open>\<sigma> n\<close> be the state at the \<open>n\<close>-th call of
  \<^verbatim>\<open>sched_yield\<close> on a CPU, each call choosing \<open>w n\<close>, and let the environment chosen still be the CPU's
  current environment at the next call, that is, it is preempted, yields or blocks but is not
  destroyed.  Then an environment that stays runnable until it is chosen is chosen within
  \<^verbatim>\<open>NENV\<close> calls.  Without the condition this is false: \<^verbatim>\<open>env_destroy\<close> clears \<^verbatim>\<open>curenv\<close> and the scan
  starts again at slot 0.
\<close>

theorem sched_yield_no_starvation:
  assumes "\<And>n. sched_pick (\<sigma> n) = Some (w n)"
    and "\<And>n. curenv (\<sigma> (Suc n)) = Some (w n) \<and> ENVX (env_id (envs (\<sigma> (Suc n)) (w n))) = w n"
    and "j < NENV" and "\<And>n. (\<forall>m < n. w m \<noteq> j) \<Longrightarrow> runnable (\<sigma> n) j"
  shows "\<exists>n < NENV. sched_yield (\<sigma> n) = env_run j (\<sigma> n)"
proof -
  have "sched_start (\<sigma> (Suc n)) = (w n + 1) mod NENV" for n using assms(2) by (simp add: sched_start_def)
  from no_starvation [where \<sigma> = \<sigma> and w = w and j = j, OF assms(1) this assms(3,4)]
  obtain n where "n < NENV" "w n = j" by blast
  then show ?thesis using sched_yield_pick [OF assms(1)] by blast
qed

theorem sched_yield_no_starvation_witness:
  "\<exists>n < NENV. sched_yield (two_envs (if even n then 1 else 0)) = env_run 1 (two_envs (if even n then 1 else 0))"
proof (rule sched_yield_no_starvation [where w = "\<lambda>n. if even n then 0 else 1" and
      \<sigma> = "\<lambda>n. two_envs (if even n then 1 else 0)" and j = 1])
  fix n :: nat
  show "sched_pick (two_envs (if even n then 1 else 0)) = Some (if even n then 0 else 1)"
    using two_envs_pick by auto
  show "curenv (two_envs (if even (Suc n) then 1 else 0)) = Some (if even n then 0 else 1) \<and>
      ENVX (env_id (envs (two_envs (if even (Suc n) then 1 else 0)) (if even n then 0 else 1))) =
        (if even n then 0 else 1)"
    by (simp add: two_envs_def ENVX_def)
  show "runnable (two_envs (if even n then 1 else 0)) 1" by (simp add: two_envs_runnable)
  show "1 < NENV" by (simp add: NENV_eq)
qed

end
