(* ===== verification/Syscall.thy ===== *)
theory Syscall
  imports Environment
begin

text \<open>
  The system calls, \<^verbatim>\<open>kern/syscall.c\<close>, and the clock they read, \<^verbatim>\<open>kern/time.c\<close>.  A call returns an
  integer or leaves the kernel (it yields, blocks, or its environment is destroyed); \<open>None\<close> is a
  kernel panic.
\<close>

type_synonym 'a kres = "('a flow \<times> kstate) option"

definition ret :: "'a \<Rightarrow> kstate \<Rightarrow> 'a kres" where
  "ret x s = Some (Returns x, s)"

definition andthen :: "'a kres \<Rightarrow> ('a \<Rightarrow> kstate \<Rightarrow> 'b kres) \<Rightarrow> 'b kres" where
  "andthen m f =
     (case m of
        None \<Rightarrow> None
      | Some (Leaves x, s) \<Rightarrow> Some (Leaves x, s)
      | Some (Returns a, s) \<Rightarrow> f a s)"

definition leave :: "(exit \<times> kstate) option \<Rightarrow> 'a kres" where
  "leave m = map_option (\<lambda>(x, s). (Leaves x, s)) m"

section \<open>The clock\<close>

definition time_init :: "kstate \<Rightarrow> kstate" where
  "time_init s = s\<lparr>ticks := 0\<rparr>"

definition time_tick :: "kstate \<Rightarrow> kstate option" where
  "time_tick s =
     (let s1 = s\<lparr>ticks := ticks s + 1\<rparr> in if ticks s1 * 10 < ticks s1 then None else Some s1)"

definition time_msec :: "kstate \<Rightarrow> u32" where
  "time_msec s = ticks s * 10"

section \<open>Reading user memory\<close>

definition get_byte :: "u32 \<Rightarrow> u32 \<Rightarrow> u8" where
  "get_byte w k = ucast (drop_bit (8 * unat k) w)"

text \<open>A load by the kernel under the page directory in force; it faults when nothing is mapped.\<close>

definition kload8 :: "u32 \<Rightarrow> kstate \<Rightarrow> u8 option" where
  "kload8 va s =
     (let pde = pmem s (cr3 s) (unat (PDX va));
          pte = pmem s (unat (PGNUM pde)) (unat (PTX va));
          f = unat (PGNUM pte); i = unat (PGOFF va) div 4
      in if pde AND PTE_P = 0 \<or> pte AND PTE_P = 0 then None
         else Some (get_byte (pmem s f i) (va AND 3)))"

primrec kread :: "nat \<Rightarrow> u32 \<Rightarrow> kstate \<Rightarrow> u8 list option" where
  "kread 0 va s = Some []"
| "kread (Suc n) va s = do { b \<leftarrow> kload8 va s; bs \<leftarrow> kread n (va + 1) s; Some (b # bs) }"

primrec kwrite :: "u8 list \<Rightarrow> u32 \<Rightarrow> kstate \<Rightarrow> kstate option" where
  "kwrite [] va s = Some s"
| "kwrite (b # bs) va s = do { s1 \<leftarrow> kstore8 va b s; kwrite bs (va + 1) s1 }"

text \<open>
  The characters \<^verbatim>\<open>cprintf("%.*s", n, p)\<close> prints: up to the terminating zero, at most \<open>n\<close>.  The
  loop of \<^verbatim>\<open>vprintfmt\<close> looks at the next character before it looks at the precision, so it also
  reads the byte after the last one printed.
\<close>

primrec kstring :: "nat \<Rightarrow> u32 \<Rightarrow> kstate \<Rightarrow> u8 list option" where
  "kstring 0 p s = do { _ \<leftarrow> kload8 p s; Some [] }"
| "kstring (Suc n) p s =
     do { ch \<leftarrow> kload8 p s;
          if ch = 0 then Some [] else do { cs \<leftarrow> kstring n (p + 1) s; Some (ch # cs) } }"

text \<open>\<open>prec\<close> is the precision as an \<^verbatim>\<open>int\<close>; a null pointer prints as \<^verbatim>\<open>(null)\<close>.\<close>

definition kformat_string :: "u32 \<Rightarrow> int \<Rightarrow> kstate \<Rightarrow> u8 list option" where
  "kformat_string p prec s =
     (if p = 0
      then Some (let cs = map byte ''(null)'' in if prec < 0 then cs else take (nat prec) cs)
      else kstring (if prec < 0 then 2 ^ 32 else nat prec) p s)"

section \<open>Calls on the console and on environments\<close>

definition sys_cputs :: "u32 \<Rightarrow> u32 \<Rightarrow> kstate \<Rightarrow> unit kres" where
  "sys_cputs p len s =
     (case curenv s of
        None \<Rightarrow> None
      | Some c \<Rightarrow>
          andthen (user_mem_assert c p len PTE_U s) (\<lambda>_ s1.
            do { cs \<leftarrow> kformat_string p (sint len) s1;
                 ret () (s1\<lparr>cons := fold cputchar (map scast cs) (cons s1)\<rparr>) }))"

definition sys_cgetc :: "kstate \<Rightarrow> int kres" where
  "sys_cgetc s = do { (c, con) \<leftarrow> cons_getc (cons s); ret c (s\<lparr>cons := con\<rparr>) }"

definition sys_getenvid :: "kstate \<Rightarrow> int kres" where
  "sys_getenvid s = do { c \<leftarrow> curenv s; ret (sint (env_id (envs s c))) s }"

definition sys_env_destroy :: "u32 \<Rightarrow> kstate \<Rightarrow> int kres" where
  "sys_env_destroy envid s =
     do { (r, e) \<leftarrow> envid2env envid True s;
          if r < 0 then ret r s
          else do { e \<leftarrow> e; andthen (env_destroy e s) (\<lambda>_. ret 0) } }"

definition sys_yield :: "kstate \<Rightarrow> unit kres" where
  "sys_yield s = leave (sched_yield s)"

definition sys_exofork :: "kstate \<Rightarrow> int kres" where
  "sys_exofork s =
     do { c \<leftarrow> curenv s;
          (r, env, s1) \<leftarrow> env_alloc (env_id (envs s c)) s;
          if r < 0 then ret r s1
          else do { env \<leftarrow> env;
                    let s2 = upd_env env (\<lambda>x. x\<lparr>env_status := ENV_NOT_RUNNABLE\<rparr>) s1;
                    let tf = env_tf (envs s2 c);
                    let s3 = upd_env env (\<lambda>x. x\<lparr>env_tf := tf\<lparr>tf_regs := (tf_regs tf)\<lparr>reg_eax := 0\<rparr>\<rparr>\<rparr>) s2;
                    ret (sint (env_id (envs s3 env))) s3 } }"

definition sys_env_set_status :: "u32 \<Rightarrow> int \<Rightarrow> kstate \<Rightarrow> int kres" where
  "sys_env_set_status envid status s =
     do { (r, e) \<leftarrow> envid2env envid True s;
          if r < 0 then ret (- E_BAD_ENV) s
          else if status < uint ENV_FREE \<or> status > uint ENV_NOT_RUNNABLE then ret (- E_INVAL) s
          else do { e \<leftarrow> e; ret 0 (upd_env e (\<lambda>x. x\<lparr>env_status := word_of_int status\<rparr>) s) } }"

text \<open>A trap frame in memory: seventeen words, in the order of \<^verbatim>\<open>struct Trapframe\<close>.\<close>

definition sizeof_Trapframe :: u32 where [jos_consts]: "sizeof_Trapframe = 68"

definition le32 :: "u8 list \<Rightarrow> nat \<Rightarrow> u32" where
  "le32 bs k = ((ucast (bs ! (4 * k)) OR push_bit 8 (ucast (bs ! (4 * k + 1))))
     OR push_bit 16 (ucast (bs ! (4 * k + 2)))) OR push_bit 24 (ucast (bs ! (4 * k + 3)))"

definition read_Trapframe :: "u8 list \<Rightarrow> Trapframe" where
  "read_Trapframe bs =
     (let hi = (\<lambda>k. ucast (drop_bit 16 (le32 bs k)) :: u16); lo = (\<lambda>k. ucast (le32 bs k) :: u16)
      in \<lparr>tf_regs = \<lparr>reg_edi = le32 bs 0, reg_esi = le32 bs 1, reg_ebp = le32 bs 2, reg_oesp = le32 bs 3,
            reg_ebx = le32 bs 4, reg_edx = le32 bs 5, reg_ecx = le32 bs 6, reg_eax = le32 bs 7\<rparr>,
          tf_es = lo 8, tf_padding1 = hi 8, tf_ds = lo 9, tf_padding2 = hi 9, tf_trapno = le32 bs 10,
          tf_err = le32 bs 11, tf_eip = le32 bs 12, tf_cs = lo 13, tf_padding3 = hi 13,
          tf_eflags = le32 bs 14, tf_esp = le32 bs 15, tf_ss = lo 16, tf_padding4 = hi 16\<rparr>)"

definition sys_env_set_trapframe :: "u32 \<Rightarrow> u32 \<Rightarrow> kstate \<Rightarrow> int kres" where
  "sys_env_set_trapframe envid tf s =
     do { (r, e) \<leftarrow> envid2env envid True s;
          if r < 0 then ret r s
          else do { e \<leftarrow> e;
                    (r, s1) \<leftarrow> user_mem_check e tf sizeof_Trapframe PTE_U s;
                    if r < 0 then ret r s1
                    else do { bs \<leftarrow> kread (unat sizeof_Trapframe) tf s1;
                              let f = read_Trapframe bs;
                              ret 0 (upd_env e (\<lambda>x. x\<lparr>env_tf := f\<lparr>tf_cs := tf_cs f OR 3,
                                tf_eflags := (tf_eflags f OR FL_IF) AND NOT FL_IOPL_MASK\<rparr>\<rparr>) s1) } } }"

definition sys_env_set_pgfault_upcall :: "u32 \<Rightarrow> u32 \<Rightarrow> kstate \<Rightarrow> int kres" where
  "sys_env_set_pgfault_upcall envid func s =
     do { (r, e) \<leftarrow> envid2env envid True s;
          if r < 0 then ret (- E_BAD_ENV) s
          else do { e \<leftarrow> e; ret 0 (upd_env e (\<lambda>x. x\<lparr>env_pgfault_upcall := func\<rparr>) s) } }"

section \<open>Calls on memory\<close>

definition bad_va :: "u32 \<Rightarrow> bool" where
  "bad_va va \<longleftrightarrow> va \<ge> UTOP \<or> c_mod (sint va) (sint PGSIZE) \<noteq> 0"

definition bad_perm :: "u32 \<Rightarrow> bool" where
  "bad_perm perm \<longleftrightarrow> perm AND PTE_U = 0 \<or> perm AND PTE_P = 0 \<or> perm AND NOT PTE_SYSCALL \<noteq> 0"

definition sys_page_alloc :: "u32 \<Rightarrow> u32 \<Rightarrow> u32 \<Rightarrow> kstate \<Rightarrow> int kres" where
  "sys_page_alloc envid va perm s =
     (if bad_va va then ret (- E_INVAL) s
      else if bad_perm perm then ret (- E_INVAL) s
      else do { (newpage, s1) \<leftarrow> page_alloc 1 s;
                case newpage of
                  None \<Rightarrow> ret (- E_NO_MEM) s1
                | Some newpage \<Rightarrow>
                    do { (r, e) \<leftarrow> envid2env envid True s1;
                         if r < 0 then ret (- E_BAD_ENV) s1
                         else do { e \<leftarrow> e;
                                   pgdir \<leftarrow> env_pgdir (envs s1 e);
                                   (r, s2) \<leftarrow> page_insert pgdir newpage va perm s1;
                                   if r < 0
                                   then do { s3 \<leftarrow> page_free newpage s2; ret (- E_NO_MEM) s3 }
                                   else ret 0 s2 } } })"

definition sys_page_map :: "u32 \<Rightarrow> u32 \<Rightarrow> u32 \<Rightarrow> u32 \<Rightarrow> u32 \<Rightarrow> kstate \<Rightarrow> int kres" where
  "sys_page_map srcenvid srcva dstenvid dstva perm s =
     (if bad_va srcva \<or> bad_va dstva then ret (- E_INVAL) s
      else if bad_perm perm then ret (- E_INVAL) s
      else do { (r, srcenv) \<leftarrow> envid2env srcenvid True s;
                if r < 0 then ret (- E_BAD_ENV) s
                else do { (r, dstenv) \<leftarrow> envid2env dstenvid True s;
                          if r < 0 then ret (- E_BAD_ENV) s
                          else do { srcenv \<leftarrow> srcenv; dstenv \<leftarrow> dstenv;
                                    srcdir \<leftarrow> env_pgdir (envs s srcenv);
                                    (page, _) \<leftarrow> page_lookup srcdir srcva s;
                                    case page of
                                      None \<Rightarrow> ret (- E_NO_MEM) s
                                    | Some page \<Rightarrow>
                                        do { dstdir \<leftarrow> env_pgdir (envs s dstenv);
                                             (r, s1) \<leftarrow> page_insert dstdir page dstva perm s;
                                             if r < 0 then ret (- E_NO_MEM) s1 else ret 0 s1 } } } })"

definition sys_page_unmap :: "u32 \<Rightarrow> u32 \<Rightarrow> kstate \<Rightarrow> int kres" where
  "sys_page_unmap envid va s =
     (if bad_va va then ret (- E_INVAL) s
      else do { (r, e) \<leftarrow> envid2env envid True s;
                if r < 0 then ret (- E_BAD_ENV) s
                else do { e \<leftarrow> e;
                          pgdir \<leftarrow> env_pgdir (envs s e);
                          s1 \<leftarrow> page_remove pgdir va s;
                          ret 0 s1 } })"

section \<open>Messages\<close>

definition ipc_deliver :: "nat \<Rightarrow> u32 \<Rightarrow> u32 \<Rightarrow> u32 \<Rightarrow> kstate \<Rightarrow> kstate" where
  "ipc_deliver dst from v p s =
     upd_env dst (\<lambda>x. x\<lparr>env_ipc_recving := False, env_ipc_from := from, env_ipc_value := v,
       env_ipc_perm := p, env_status := ENV_RUNNABLE,
       env_tf := (env_tf x)\<lparr>tf_regs := (tf_regs (env_tf x))\<lparr>reg_eax := 0\<rparr>\<rparr>\<rparr>) s"

definition sys_ipc_try_send :: "u32 \<Rightarrow> u32 \<Rightarrow> u32 \<Rightarrow> u32 \<Rightarrow> kstate \<Rightarrow> int kres" where
  "sys_ipc_try_send envid val srcva perm s =
     do { (r, dstenv) \<leftarrow> envid2env envid False s;
          if r < 0 then ret r s
          else do { dst \<leftarrow> dstenv;
                    if \<not> env_ipc_recving (envs s dst) \<or> env_ipc_from (envs s dst) \<noteq> 0
                    then ret (- E_IPC_NOT_RECV) s
                    else do { c \<leftarrow> curenv s;
                      if srcva < UTOP
                      then if PGOFF srcva \<noteq> 0 then ret (- E_INVAL) s
                      else if bad_perm perm then ret (- E_INVAL) s
                      else do { srcdir \<leftarrow> env_pgdir (envs s c);
                                (pp, pte) \<leftarrow> page_lookup srcdir srcva s;
                                case (pp, pte) of
                                  (Some pp, Some (f, i)) \<Rightarrow>
                                    if perm AND PTE_W \<noteq> 0 \<and> pmem s f i AND PTE_W = 0 then ret (- E_INVAL) s
                                    else if env_ipc_dstva (envs s dst) \<noteq> 0
                                    then do { dstdir \<leftarrow> env_pgdir (envs s dst);
                                              (r, s1) \<leftarrow> page_insert dstdir pp (env_ipc_dstva (envs s dst)) perm s;
                                              if r < 0 then ret r s1
                                              else ret 0 (ipc_deliver dst (env_id (envs s1 c)) val perm s1) }
                                    else ret 0 (ipc_deliver dst (env_id (envs s c)) val 0 s)
                                | _ \<Rightarrow> ret (- E_INVAL) s }
                      else ret 0 (ipc_deliver dst (env_id (envs s c)) val 0 s) } } }"

definition sys_ipc_recv :: "u32 \<Rightarrow> kstate \<Rightarrow> int kres" where
  "sys_ipc_recv dstva s =
     (if dstva < UTOP \<and> PGOFF dstva \<noteq> 0 then ret (- E_INVAL) s
      else do { c \<leftarrow> curenv s;
                let s1 = (if dstva < UTOP then upd_env c (\<lambda>x. x\<lparr>env_ipc_dstva := dstva\<rparr>) s else s);
                let s2 = upd_env c (\<lambda>x. x\<lparr>env_ipc_recving := True, env_status := ENV_NOT_RUNNABLE,
                           env_ipc_from := 0\<rparr>) s1;
                leave (sched_yield s2) })"

definition sys_time_msec :: "kstate \<Rightarrow> int kres" where
  "sys_time_msec s = ret (sint (time_msec s)) s"

section \<open>Packets\<close>

text \<open>
  \<^verbatim>\<open>memmove\<close> takes the length as an unsigned number; a negative one is far beyond the packet
  buffers.
\<close>

definition sys_pkt_try_send :: "u32 \<Rightarrow> u32 \<Rightarrow> kstate \<Rightarrow> int kres" where
  "sys_pkt_try_send buf len s =
     (case curenv s of
        None \<Rightarrow> None
      | Some c \<Rightarrow>
          andthen (user_mem_assert c buf len PTE_U s) (\<lambda>_ s1.
            do { (r, n) \<leftarrow> e1000_transmit (kread (unat len) buf s1) (nic s1);
                 ret r (s1\<lparr>nic := n\<rparr>) }))"

definition bytes32 :: "u32 \<Rightarrow> u8 list" where
  "bytes32 w = map (\<lambda>k. get_byte w (word_of_nat k)) [0, 1, 2, 3]"

definition sys_pkt_try_recv :: "u32 \<Rightarrow> u32 \<Rightarrow> kstate \<Rightarrow> int kres" where
  "sys_pkt_try_recv buf len s =
     do { (r, pkt, n) \<leftarrow> e1000_receive (nic s);
          if r < 0 then ret r s
          else do { s1 \<leftarrow> kwrite (bytes32 (word_of_nat (length pkt))) len s;
                    s2 \<leftarrow> kwrite pkt buf s1;
                    ret r (s2\<lparr>nic := n\<rparr>) } }"

section \<open>Dispatch\<close>

definition SYS_cputs :: u32 where [jos_consts]: "SYS_cputs = 0"
definition SYS_cgetc :: u32 where [jos_consts]: "SYS_cgetc = 1"
definition SYS_getenvid :: u32 where [jos_consts]: "SYS_getenvid = 2"
definition SYS_env_destroy :: u32 where [jos_consts]: "SYS_env_destroy = 3"
definition SYS_page_alloc :: u32 where [jos_consts]: "SYS_page_alloc = 4"
definition SYS_page_map :: u32 where [jos_consts]: "SYS_page_map = 5"
definition SYS_page_unmap :: u32 where [jos_consts]: "SYS_page_unmap = 6"
definition SYS_exofork :: u32 where [jos_consts]: "SYS_exofork = 7"
definition SYS_env_set_status :: u32 where [jos_consts]: "SYS_env_set_status = 8"
definition SYS_env_set_trapframe :: u32 where [jos_consts]: "SYS_env_set_trapframe = 9"
definition SYS_env_set_pgfault_upcall :: u32 where [jos_consts]: "SYS_env_set_pgfault_upcall = 10"
definition SYS_yield :: u32 where [jos_consts]: "SYS_yield = 11"
definition SYS_ipc_try_send :: u32 where [jos_consts]: "SYS_ipc_try_send = 12"
definition SYS_ipc_recv :: u32 where [jos_consts]: "SYS_ipc_recv = 13"
definition SYS_time_msec :: u32 where [jos_consts]: "SYS_time_msec = 14"
definition SYS_pkt_try_send :: u32 where [jos_consts]: "SYS_pkt_try_send = 15"
definition SYS_pkt_try_recv :: u32 where [jos_consts]: "SYS_pkt_try_recv = 16"

definition syscall :: "u32 \<Rightarrow> u32 \<Rightarrow> u32 \<Rightarrow> u32 \<Rightarrow> u32 \<Rightarrow> u32 \<Rightarrow> kstate \<Rightarrow> int kres" where
  "syscall syscallno a1 a2 a3 a4 a5 s =
     (if syscallno = SYS_cputs then andthen (sys_cputs a1 a2 s) (\<lambda>_. ret 0)
      else if syscallno = SYS_cgetc then sys_cgetc s
      else if syscallno = SYS_getenvid then sys_getenvid s
      else if syscallno = SYS_env_destroy then sys_env_destroy a1 s
      else if syscallno = SYS_yield then andthen (sys_yield s) (\<lambda>_. ret 0)
      else if syscallno = SYS_exofork then sys_exofork s
      else if syscallno = SYS_env_set_status then sys_env_set_status a1 (sint a2) s
      else if syscallno = SYS_page_alloc then sys_page_alloc a1 a2 a3 s
      else if syscallno = SYS_page_map then sys_page_map a1 a2 a3 a4 a5 s
      else if syscallno = SYS_page_unmap then sys_page_unmap a1 a2 s
      else if syscallno = SYS_env_set_pgfault_upcall then sys_env_set_pgfault_upcall a1 a2 s
      else if syscallno = SYS_ipc_try_send then sys_ipc_try_send a1 a2 a3 a4 s
      else if syscallno = SYS_ipc_recv then sys_ipc_recv a1 s
      else if syscallno = SYS_env_set_trapframe then sys_env_set_trapframe a1 a2 s
      else if syscallno = SYS_time_msec then sys_time_msec s
      else if syscallno = SYS_pkt_try_send then sys_pkt_try_send a1 a2 s
      else if syscallno = SYS_pkt_try_recv then sys_pkt_try_recv a1 a2 s
      else ret (- E_INVAL) s)"

text \<open>
  The packet calls trust their arguments: \<^verbatim>\<open>sys_pkt_try_recv\<close> stores through pointers nobody has
  checked, and \<^verbatim>\<open>sys_pkt_try_send\<close> copies a packet of any length into a buffer of one frame.  The C
  code goes on with whatever kernel data it has overwritten, which the definitions above do not
  describe.  What is said about system calls is therefore said where \<open>pkt_args_ok\<close> holds: the call
  is not \<^verbatim>\<open>sys_pkt_try_recv\<close>, and a packet sent fits its buffer.  \<open>n\<close> is the number of the call
  and \<open>len\<close> its second argument.
\<close>

definition pkt_args_ok :: "u32 \<Rightarrow> u32 \<Rightarrow> kstate \<Rightarrow> bool" where
  "pkt_args_ok n len s \<longleftrightarrow> n \<noteq> SYS_pkt_try_recv \<and>
     (n = SYS_pkt_try_send \<longrightarrow>
        unat len \<le> E1000_TX_DESC_BUF_MTU \<and> tx_index (nic s) < E1000_TX_DESC_ARRAY_SIZE)"

end
