(* ===== verification/Kdebug.thy ===== *)
theory Kdebug
  imports Syscall
begin

text \<open>
  Debugging information, \<^verbatim>\<open>kern/kdebug.c\<close>: finding the file, function and line of an instruction
  address in a table of stabs.  The table is read from memory entry by entry; reading an
  unmapped address is a page fault in the kernel, \<open>None\<close>.
\<close>

record Stab =
  n_strx :: u32
  n_type :: u8
  n_other :: u8
  n_desc :: u16
  n_value :: u32

definition N_FUN :: u8 where [jos_consts]: "N_FUN = 0x24"
definition N_SLINE :: u8 where [jos_consts]: "N_SLINE = 0x44"
definition N_SO :: u8 where [jos_consts]: "N_SO = 0x64"
definition N_SOL :: u8 where [jos_consts]: "N_SOL = 0x84"
definition N_PSYM :: u8 where [jos_consts]: "N_PSYM = 0xA0"
definition USTABDATA :: u32 where [jos_consts]: "USTABDATA = 0x200000"

definition read_Stab :: "kstate \<Rightarrow> u32 \<Rightarrow> int \<Rightarrow> Stab option" where
  "read_Stab s stabs m =
     do { bs \<leftarrow> kread 12 (stabs + 12 * word_of_int m) s;
          Some \<lparr>n_strx = le32 bs 0, n_type = bs ! 4, n_other = bs ! 5,
                n_desc = ucast (bs ! 6) OR push_bit 8 (ucast (bs ! 7)), n_value = le32 bs 2\<rparr> }"

section \<open>The binary search\<close>

text \<open>Going down from \<open>m\<close> to the next entry of the type, not below \<open>l\<close>.\<close>

function scan_down :: "(int \<Rightarrow> Stab option) \<Rightarrow> u8 \<Rightarrow> int \<Rightarrow> int \<Rightarrow> int option" where
  "scan_down stab type l m =
     (if l \<le> m
      then do { e \<leftarrow> stab m; if n_type e \<noteq> type then scan_down stab type l (m - 1) else Some m }
      else Some m)"
  by auto
termination by (relation "measure (\<lambda>(_, _, l, m). nat (m - l + 1))") auto

declare scan_down.simps [simp del]

lemma scan_down_range: "scan_down stab type l m = Some k \<Longrightarrow> k \<le> m \<and> (l \<le> m \<longrightarrow> l - 1 \<le> k)"
proof (induction stab type l m rule: scan_down.induct)
  case (1 stab type l m)
  show ?case
  proof (cases "l \<le> m")
    case True
    then obtain e where e: "stab m = Some e"
      using 1(2) by (subst (asm) scan_down.simps) (auto split: bind_splits)
    show ?thesis
    proof (cases "n_type e = type")
      case True
      then show ?thesis using 1(2) e \<open>l \<le> m\<close> by (subst (asm) scan_down.simps) auto
    next
      case False
      then have k: "scan_down stab type l (m - 1) = Some k"
        using 1(2) e \<open>l \<le> m\<close> by (subst (asm) scan_down.simps) auto
      have "l \<le> m - 1 \<or> k = m - 1" using k by (cases "l \<le> m - 1") (auto simp: scan_down.simps [of _ _ _ "m - 1"])
      then show ?thesis using 1(1) [OF True e False k] True by auto
    qed
  qed (use 1(2) in \<open>auto simp: scan_down.simps [of _ _ _ m]\<close>)
qed

lemma mid_between: "(l :: int) \<le> r \<Longrightarrow> l \<le> (l + r) div 2 \<and> (l + r) div 2 \<le> r"
  by auto

text \<open>
  The loop of \<^verbatim>\<open>stab_binsearch\<close>.  On an exact match the interval may stay the same, but the address
  it looks for has moved on: the second summand of the measure counts that.
\<close>

definition at_match :: "(int \<Rightarrow> Stab option) \<Rightarrow> u8 \<Rightarrow> int \<Rightarrow> int \<Rightarrow> u32 \<Rightarrow> bool" where
  "at_match stab type l r addr =
     (case scan_down stab type l ((l + r) div 2) of
        None \<Rightarrow> False
      | Some m \<Rightarrow> (case stab m of None \<Rightarrow> False | Some e \<Rightarrow> n_value e = addr))"

lemma binsearch_exact_moves:
  assumes "scan_down stab type l ((l + r) div 2) = Some l" and "stab l = Some e"
  shows "\<not> at_match stab type l r (n_value e + 1)"
  using assms by (simp add: at_match_def)

lemma shrinks: "x < y \<Longrightarrow> 2 * x + (if P then 1 else 0) < 2 * y + (if Q then 1 else (0 :: nat))"
  by auto

function binsearch_loop ::
  "(int \<Rightarrow> Stab option) \<Rightarrow> u8 \<Rightarrow> int \<Rightarrow> int \<Rightarrow> u32 \<Rightarrow> int \<Rightarrow> int \<Rightarrow> bool \<Rightarrow> (int \<times> int \<times> bool) option" where
  "binsearch_loop stab type l r addr left right any =
     (if l \<le> r
      then let true_m = (l + r) div 2 in
           (case scan_down stab type l true_m of
              None \<Rightarrow> None
            | Some m \<Rightarrow>
                if m < l then binsearch_loop stab type (true_m + 1) r addr left right any
                else (case stab m of
                        None \<Rightarrow> None
                      | Some e \<Rightarrow>
                          if n_value e < addr
                          then binsearch_loop stab type (true_m + 1) r addr m right True
                          else if n_value e > addr
                          then binsearch_loop stab type l (m - 1) addr left (m - 1) True
                          else binsearch_loop stab type m r (addr + 1) m right True))
      else Some (left, right, any))"
  by pat_completeness auto
termination
proof (relation "measure (\<lambda>(stab, type, l, r, addr, left, right, any).
    2 * nat (r - l + 1) + (if at_match stab type l r addr then 1 else 0))", goal_cases)
  case (5 stab type l r addr left right any true_m m e)
  then have m: "l \<le> m" "m \<le> r" "scan_down stab type l ((l + r) div 2) = Some m" "n_value e = addr"
    using scan_down_range [of stab type l "(l + r) div 2" m] mid_between [of l r] by auto
  show ?case
  proof (cases "m = l")
    case True
    then have "\<not> at_match stab type m r (addr + 1)" "at_match stab type l r addr"
      using binsearch_exact_moves m 5(5) by (auto simp: at_match_def)
    then show ?thesis using True by simp
  next
    case False
    then show ?thesis unfolding in_measure split_conv using m by (intro shrinks) simp
  qed
next
  case (2 stab type l r addr left right any true_m m)
  then show ?case unfolding in_measure split_conv using mid_between [of l r] by (intro shrinks) simp
next
  case (3 stab type l r addr left right any true_m m e)
  then show ?case unfolding in_measure split_conv using mid_between [of l r] by (intro shrinks) simp
next
  case (4 stab type l r addr left right any true_m m e)
  then show ?case unfolding in_measure split_conv
    using scan_down_range [of stab type l "(l + r) div 2" m] mid_between [of l r] by (intro shrinks) simp
qed simp

declare binsearch_loop.simps [simp del]

definition stab_binsearch ::
  "(int \<Rightarrow> Stab option) \<Rightarrow> int \<Rightarrow> int \<Rightarrow> u8 \<Rightarrow> u32 \<Rightarrow> (int \<times> int) option" where
  "stab_binsearch stab region_left region_right type addr =
     do { (left, right, any) \<leftarrow>
            binsearch_loop stab type region_left region_right addr region_left region_right False;
          if \<not> any then Some (left, left - 1)
          else do { l \<leftarrow> scan_down stab type (left + 1) right; Some (l, right) } }"

section \<open>Information about an address\<close>

text \<open>A C string: a literal of the kernel, or the address of a string in memory.\<close>

datatype cptr = Lit string | At u32

partial_function (option) kcstring :: "u32 \<Rightarrow> kstate \<Rightarrow> u8 list option" where
  "kcstring p s =
     do { ch \<leftarrow> kload8 p s;
          if ch = 0 then Some [] else do { cs \<leftarrow> kcstring (p + 1) s; Some (ch # cs) } }"

definition cptr_string :: "cptr \<Rightarrow> kstate \<Rightarrow> u8 list option" where
  "cptr_string p s = (case p of Lit cs \<Rightarrow> Some (map byte cs) | At a \<Rightarrow> kcstring a s)"

record Eipdebuginfo =
  eip_file :: cptr
  eip_line :: int
  eip_fn_name :: cptr
  eip_fn_namelen :: int
  eip_fn_addr :: u32
  eip_fn_narg :: int

definition unknown_info :: "u32 \<Rightarrow> Eipdebuginfo" where
  "unknown_info addr = \<lparr>eip_file = Lit ''<unknown>'', eip_line = 0, eip_fn_name = Lit ''<unknown>'',
     eip_fn_namelen = 9, eip_fn_addr = addr, eip_fn_narg = 0\<rparr>"

text \<open>The four pointers of \<^verbatim>\<open>struct UserStabData\<close>, from the linker or from user memory.\<close>

record UserStabData =
  stabs :: u32
  stab_end :: u32
  stabstr :: u32
  stabstr_end :: u32

text \<open>Subtraction of pointers to stabs counts entries of 12 bytes.\<close>

definition stab_count :: "UserStabData \<Rightarrow> int" where
  "stab_count u = c_div (sint (stab_end u - stabs u)) 12"

definition find_stabs :: "u32 \<Rightarrow> kstate \<Rightarrow> (UserStabData option \<times> kstate) option" where
  "find_stabs addr s =
     (if addr \<ge> ULIM
      then Some (Some \<lparr>stabs = STAB_BEGIN (syms s), stab_end = STAB_END (syms s),
                       stabstr = STABSTR_BEGIN (syms s), stabstr_end = STABSTR_END (syms s)\<rparr>, s)
      else do { c \<leftarrow> curenv s;
                (r, s) \<leftarrow> user_mem_check c USTABDATA 16 PTE_U s;
                if r < 0 then Some (None, s)
                else do { bs \<leftarrow> kread 16 USTABDATA s;
                          let u = \<lparr>stabs = le32 bs 0, stab_end = le32 bs 1, stabstr = le32 bs 2, stabstr_end = le32 bs 3\<rparr>;
                          (r, s) \<leftarrow> user_mem_check c (stabs u) (word_of_int (stab_count u)) PTE_U s;
                          if r < 0 then Some (None, s)
                          else do { (r, s) \<leftarrow> user_mem_check c (stabstr u) (stabstr_end u - stabstr u) PTE_U s;
                                    if r < 0 then Some (None, s) else Some (Some u, s) } } })"

text \<open>Backwards from the line's entry to the one that names the source file.\<close>

function scan_file :: "(int \<Rightarrow> Stab option) \<Rightarrow> int \<Rightarrow> int \<Rightarrow> int option" where
  "scan_file stab lfile lline =
     (if lfile \<le> lline
      then do { e \<leftarrow> stab lline;
                if n_type e \<noteq> N_SOL \<and> (n_type e \<noteq> N_SO \<or> n_value e = 0)
                then scan_file stab lfile (lline - 1) else Some lline }
      else Some lline)"
  by auto
termination by (relation "measure (\<lambda>(_, lfile, lline). nat (lline - lfile + 1))") auto

function count_args :: "(int \<Rightarrow> Stab option) \<Rightarrow> int \<Rightarrow> int \<Rightarrow> int option" where
  "count_args stab lline rfun =
     (if lline < rfun
      then do { e \<leftarrow> stab lline;
                if n_type e = N_PSYM then map_option ((+) 1) (count_args stab (lline + 1) rfun) else Some 0 }
      else Some 0)"
  by auto
termination by (relation "measure (\<lambda>(_, lline, rfun). nat (rfun - lline))") auto

declare scan_file.simps [simp del] count_args.simps [simp del]

text \<open>\<^verbatim>\<open>strfind(name, ':') - name\<close>: nothing is read beyond the colon or the terminating zero.\<close>

partial_function (option) kstrfind :: "u32 \<Rightarrow> u8 \<Rightarrow> kstate \<Rightarrow> int option" where
  "kstrfind p c s =
     do { ch \<leftarrow> kload8 p s;
          if ch = 0 \<or> ch = c then Some 0 else do { n \<leftarrow> kstrfind (p + 1) c s; Some (n + 1) } }"

definition name_length :: "cptr \<Rightarrow> kstate \<Rightarrow> int option" where
  "name_length p s =
     (case p of
        Lit cs \<Rightarrow> Some (int (length (takeWhile (\<lambda>c. c \<noteq> CHR '':'') cs)))
      | At a \<Rightarrow> kstrfind a (byte (CHR '':'')) s)"

text \<open>After the tables are found and checked: the file, the function, the line.\<close>

definition eip_lookup :: "UserStabData \<Rightarrow> u32 \<Rightarrow> Eipdebuginfo \<Rightarrow> kstate \<Rightarrow> (int \<times> Eipdebuginfo) option" where
  "eip_lookup u addr info s =
     (let stab = read_Stab s (stabs u); strsz = stabstr_end u - stabstr u in
      do { (lfile, rfile) \<leftarrow> stab_binsearch stab 0 (stab_count u - 1) N_SO addr;
           if lfile = 0 then Some (- 1, info)
           else do {
             (lfun, rfun) \<leftarrow> stab_binsearch stab lfile rfile N_FUN addr;
             (info, addr, lline, rline) \<leftarrow>
               (if lfun \<le> rfun
                then do { e \<leftarrow> stab lfun;
                          let info = (if n_strx e < strsz then info\<lparr>eip_fn_name := At (stabstr u + n_strx e)\<rparr> else info);
                          Some (info\<lparr>eip_fn_addr := n_value e\<rparr>, addr - n_value e, lfun, rfun) }
                else Some (info\<lparr>eip_fn_addr := addr\<rparr>, addr, lfile, rfile));
             namelen \<leftarrow> name_length (eip_fn_name info) s;
             let info = info\<lparr>eip_fn_namelen := namelen\<rparr>;
             (lline, rline) \<leftarrow> stab_binsearch stab lline rline N_SLINE addr;
             if lline \<le> rline
             then do {
               e \<leftarrow> stab lline;
               let info = info\<lparr>eip_line := uint (n_desc e)\<rparr>;
               lline \<leftarrow> scan_file stab lfile lline;
               info \<leftarrow> (if lfile \<le> lline
                        then do { e \<leftarrow> stab lline;
                                  Some (if n_strx e < strsz then info\<lparr>eip_file := At (stabstr u + n_strx e)\<rparr> else info) }
                        else Some info);
               narg \<leftarrow> (if lfun < rfun then count_args stab (lfun + 1) rfun else Some 0);
               Some (0, info\<lparr>eip_fn_narg := eip_fn_narg info + narg\<rparr>) }
             else Some (- 1, info) } })"

definition debuginfo_eip :: "u32 \<Rightarrow> kstate \<Rightarrow> ((int \<times> Eipdebuginfo) \<times> kstate) option" where
  "debuginfo_eip addr s =
     (let info = unknown_info addr in
      do { (u, s) \<leftarrow> find_stabs addr s;
           case u of
             None \<Rightarrow> Some ((- 1, info), s)
           | Some u \<Rightarrow>
               if stabstr_end u \<le> stabstr u then Some ((- 1, info), s)
               else do { z \<leftarrow> kload8 (stabstr_end u - 1) s;
                         if z \<noteq> 0 then Some ((- 1, info), s)
                         else do { r \<leftarrow> eip_lookup u addr info s; Some (r, s) } } })"

section \<open>What the search finds\<close>

lemma scan_down_finds:
  assumes "\<And>i. l \<le> i \<Longrightarrow> i \<le> m \<Longrightarrow> stab i = Some (f i)"
  shows "\<exists>k. scan_down stab type l m = Some k \<and> (l \<le> k \<longrightarrow> n_type (f k) = type) \<and>
     (\<forall>i. k < i \<and> i \<le> m \<longrightarrow> n_type (f i) \<noteq> type) \<and> k \<le> m \<and> (l \<le> m \<longrightarrow> l - 1 \<le> k)"
  using assms
proof (induction stab type l m rule: scan_down.induct)
  case (1 stab type l m)
  show ?case
  proof (cases "l \<le> m \<and> n_type (f m) \<noteq> type")
    case True
    then have e: "stab m = Some (f m)" using 1(2) by simp
    then obtain k where k: "scan_down stab type l (m - 1) = Some k" "l \<le> k \<longrightarrow> n_type (f k) = type"
        "\<forall>i. k < i \<and> i \<le> m - 1 \<longrightarrow> n_type (f i) \<noteq> type" "k \<le> m - 1" "l \<le> m - 1 \<longrightarrow> l - 1 \<le> k"
      using 1(1) [OF _ e] 1(2) True by auto
    have "scan_down stab type l m = Some k" using k(1) True e by (subst scan_down.simps) simp
    moreover have "n_type (f i) \<noteq> type" if "k < i" "i \<le> m" for i
      using k(3) True that by (cases "i = m") auto
    moreover have "l - 1 \<le> k"
      using k True by (cases "l \<le> m - 1") (auto simp: scan_down.simps [of _ _ _ "m - 1"])
    ultimately show ?thesis using k by auto
  next
    case False
    then have "scan_down stab type l m = Some m" using 1(2) by (subst scan_down.simps) auto
    then show ?thesis using False by auto
  qed
qed

text \<open>
  The table has entries \<open>f L\<close> to \<open>f R\<close>; those of the type are in increasing order and none lies
  one byte after the address.
\<close>

definition searchable :: "(int \<Rightarrow> Stab option) \<Rightarrow> (int \<Rightarrow> Stab) \<Rightarrow> u8 \<Rightarrow> int \<Rightarrow> int \<Rightarrow> u32 \<Rightarrow> bool" where
  "searchable stab f type L R addr \<longleftrightarrow>
     (\<forall>i \<in> {L..R}. stab i = Some (f i)) \<and>
     (\<forall>i \<in> {L..R}. \<forall>j \<in> {L..R}. i < j \<and> n_type (f i) = type \<and> n_type (f j) = type \<longrightarrow>
        n_value (f i) < n_value (f j)) \<and>
     (\<forall>i \<in> {L..R}. n_type (f i) = type \<longrightarrow> n_value (f i) \<noteq> addr + 1) \<and> addr < addr + 1"

text \<open>The invariant of the loop for the address \<open>a\<close> it was called with.\<close>

definition search_inv ::
  "(int \<Rightarrow> Stab) \<Rightarrow> u8 \<Rightarrow> int \<Rightarrow> int \<Rightarrow> u32 \<Rightarrow> int \<Rightarrow> int \<Rightarrow> u32 \<Rightarrow> int \<Rightarrow> bool \<Rightarrow> bool" where
  "search_inv f type L R a l r addr left any \<longleftrightarrow>
     L \<le> l \<and> r \<le> R \<and> l \<le> r + 1 \<and> (r = R \<or> n_type (f (r + 1)) = type) \<and> (addr = a \<or> addr = a + 1) \<and>
     (\<forall>i. L \<le> i \<and> i < l \<and> n_type (f i) = type \<longrightarrow> n_value (f i) \<le> a) \<and>
     (\<forall>i. r < i \<and> i \<le> R \<and> n_type (f i) = type \<longrightarrow> a < n_value (f i)) \<and>
     (\<forall>i. left < i \<and> i < l \<longrightarrow> n_type (f i) \<noteq> type) \<and>
     (any \<and> L \<le> left \<and> left \<le> l \<and> left \<le> r \<and> n_type (f left) = type \<and> n_value (f left) \<le> a \<or>
      left = L \<and> (\<forall>i. L \<le> i \<and> i < l \<longrightarrow> n_type (f i) \<noteq> type))"

lemma less_inc: "(x :: u32) < a + 1 \<Longrightarrow> a < a + 1 \<Longrightarrow> x \<le> a"
  by (simp add: word_less_nat_alt word_le_nat_alt unat_word_ariths mod_Suc split: if_splits)

lemma search_inv_skip:
  assumes "search_inv f type L R a l r addr left any" and "l \<le> t" and "t \<le> r"
    and nt: "\<forall>i. l \<le> i \<and> i \<le> t \<longrightarrow> n_type (f i) \<noteq> type"
  shows "search_inv f type L R a (t + 1) r addr left any"
proof -
  have lt: "i < l \<or> l \<le> i \<and> i \<le> t" if "i < t + 1" for i using that by auto
  show ?thesis using assms unfolding search_inv_def by (smt (verit) lt)
qed

lemma binsearch_loop_inv:
  assumes "searchable stab f type L R a"
    and "search_inv f type L R a l r addr left any" and "right = r"
  shows "\<exists>left' r' any'. binsearch_loop stab type l r addr left right any = Some (left', r', any') \<and>
     search_inv f type L R a (r' + 1) r' a left' any'"
  using assms
proof (induction stab type l r addr left right any rule: binsearch_loop.induct)
  case (1 stab type l r addr left right any)
  note S = 1(5) and I = 1(6) [unfolded search_inv_def] and right = 1(7)
  show ?case
  proof (cases "l \<le> r")
    case False
    then have "l = r + 1" using I by simp
    then have "search_inv f type L R a (r + 1) r a left any" using I unfolding search_inv_def by simp
    then show ?thesis using False right by (subst binsearch_loop.simps) auto
  next
    case True
    let ?t = "(l + r) div 2"
    have t: "l \<le> ?t" "?t \<le> r" using mid_between [OF True] by auto
    have "\<And>i. l \<le> i \<Longrightarrow> i \<le> ?t \<Longrightarrow> stab i = Some (f i)"
      using S I t by (auto simp: searchable_def)
    then have "\<exists>k. scan_down stab type l ?t = Some k \<and> (l \<le> k \<longrightarrow> n_type (f k) = type) \<and>
        (\<forall>i. k < i \<and> i \<le> ?t \<longrightarrow> n_type (f i) \<noteq> type) \<and> k \<le> ?t \<and> (l \<le> ?t \<longrightarrow> l - 1 \<le> k)"
      by (rule scan_down_finds)
    with t obtain m where
      m: "scan_down stab type l ?t = Some m" "l \<le> m \<longrightarrow> n_type (f m) = type"
        "\<forall>i. m < i \<and> i \<le> ?t \<longrightarrow> n_type (f i) \<noteq> type" "m \<le> ?t" "l - 1 \<le> m" by blast
    show ?thesis
    proof (cases "m < l")
      case True
      then have "\<forall>i. l \<le> i \<and> i \<le> ?t \<longrightarrow> n_type (f i) \<noteq> type" using m(3) by auto
      then have "search_inv f type L R a (?t + 1) r addr left any" using 1(6) t by (intro search_inv_skip)
      from 1(1) [OF \<open>l \<le> r\<close> refl m(1) True S this right]
      show ?thesis using \<open>l \<le> r\<close> m(1) True by (subst binsearch_loop.simps) simp
    next
      case False
      then have e: "stab m = Some (f m)" and ty: "n_type (f m) = type" and mLR: "L \<le> m" "m \<le> R" "l \<le> m"
        using S I t m by (auto simp: searchable_def)
      have mono: "n_value (f i) < n_value (f j)"
        if "L \<le> i" "i < j" "j \<le> R" "n_type (f i) = type" "n_type (f j) = type" for i j
        using S that unfolding searchable_def by auto
      have ne: "n_value (f m) \<noteq> a + 1" "a < a + 1" using S ty mLR unfolding searchable_def by auto
      consider "n_value (f m) < addr" | "n_value (f m) > addr" | "n_value (f m) = addr" by (meson linorder_cases)
      then show ?thesis
      proof cases
        case less: 1
        then have "n_value (f m) \<le> a" using I ne less_inc [of "n_value (f m)" a] by auto
        have "n_value (f i) \<le> a" if "L \<le> i" "i \<le> ?t" "n_type (f i) = type" for i
          using mono [of i m] that m(3) mLR ty \<open>n_value (f m) \<le> a\<close> by (cases i m rule: linorder_cases) auto
        then have "search_inv f type L R a (?t + 1) r addr m True"
          using I t m mLR ty \<open>n_value (f m) \<le> a\<close> unfolding search_inv_def by auto
        from 1(2) [OF \<open>l \<le> r\<close> refl m(1) False e less S this right]
        show ?thesis using \<open>l \<le> r\<close> m(1) False e less by (subst binsearch_loop.simps) simp
      next
        case greater: 2
        then have "a < n_value (f m)" using I ne by auto
        have "a < n_value (f i)" if "m \<le> i" "i \<le> R" "n_type (f i) = type" for i
          using mono [of m i] that mLR ty \<open>a < n_value (f m)\<close> by (cases "i = m") auto
        moreover have "left < m" if "left \<le> l" "n_value (f left) \<le> a"
          using that mLR \<open>a < n_value (f m)\<close> by (cases "left = m") auto
        ultimately have "search_inv f type L R a l (m - 1) addr left True"
          using I t m mLR ty unfolding search_inv_def by auto
        moreover have ng: "\<not> n_value (f m) < addr" using greater by (rule less_not_sym)
        ultimately show ?thesis using 1(3) [OF \<open>l \<le> r\<close> refl m(1) False e ng greater S _ refl]
            \<open>l \<le> r\<close> m(1) False e greater by (subst binsearch_loop.simps) simp
      next
        case exact: 3
        then have "addr = a" using I ne by auto
        have "n_value (f i) \<le> a" if "L \<le> i" "i < m" "n_type (f i) = type" for i
          using mono [of i m] that mLR ty exact \<open>addr = a\<close> by auto
        then have "search_inv f type L R a m r (addr + 1) m True"
          using I t m mLR ty exact \<open>addr = a\<close> unfolding search_inv_def by auto
        from 1(4) [OF \<open>l \<le> r\<close> refl m(1) False e _ _ S this right]
        show ?thesis using \<open>l \<le> r\<close> m(1) False e exact by (subst binsearch_loop.simps) simp
      qed
    qed
  qed
qed

lemma stab_binsearch_entry:
  assumes S: "searchable stab f type L R addr"
    and k: "L \<le> k" "k \<le> R" "n_type (f k) = type" "n_value (f k) \<le> addr"
  shows "\<exists>l r. stab_binsearch stab L R type addr = Some (l, r) \<and> L \<le> l \<and> l \<le> r \<and> r \<le> R \<and>
     n_type (f l) = type \<and> n_value (f l) \<le> addr \<and>
     (\<forall>i. l < i \<and> i \<le> r \<longrightarrow> n_type (f i) \<noteq> type) \<and> (r = R \<or> n_type (f (r + 1)) = type) \<and>
     (\<forall>i. r < i \<and> i \<le> R \<and> n_type (f i) = type \<longrightarrow> addr < n_value (f i))"
proof -
  have "search_inv f type L R addr L R addr L False" using k by (auto simp: search_inv_def)
  from binsearch_loop_inv [OF S this refl] obtain left r any where
    b: "binsearch_loop stab type L R addr L R False = Some (left, r, any)"
      and I: "search_inv f type L R addr (r + 1) r addr left any" by blast
  have "k \<le> r" using I k by (force simp: search_inv_def not_le [symmetric])
  then have J: "any" "L \<le> left" "left \<le> r" "n_type (f left) = type" "n_value (f left) \<le> addr" "r \<le> R"
      "\<forall>i. left < i \<and> i \<le> r \<longrightarrow> n_type (f i) \<noteq> type"
    using I k unfolding search_inv_def by auto
  have "\<And>i. left + 1 \<le> i \<Longrightarrow> i \<le> r \<Longrightarrow> stab i = Some (f i)" using S J by (auto simp: searchable_def)
  then have "\<exists>k. scan_down stab type (left + 1) r = Some k \<and> (left + 1 \<le> k \<longrightarrow> n_type (f k) = type) \<and>
      (\<forall>i. k < i \<and> i \<le> r \<longrightarrow> n_type (f i) \<noteq> type) \<and> k \<le> r \<and> (left + 1 \<le> r \<longrightarrow> left + 1 - 1 \<le> k)"
    by (rule scan_down_finds)
  then obtain l where l: "scan_down stab type (left + 1) r = Some l" "left + 1 \<le> l \<longrightarrow> n_type (f l) = type"
      "l \<le> r" "left + 1 \<le> r \<longrightarrow> left \<le> l" by auto
  have "l = left"
  proof (cases "left = r")
    case True
    then show ?thesis using l(1) by (subst (asm) scan_down.simps) simp
  next
    case False
    then show ?thesis using l J by force
  qed
  then have "stab_binsearch stab L R type addr = Some (left, r)" using b J(1) l(1) by (simp add: stab_binsearch_def)
  then show ?thesis using J I by (auto simp: search_inv_def)
qed

text \<open>
  Without the last condition on the table the search goes wrong: for two functions at 10 and 11
  and the address 10 it answers with the one at 11, because after the exact match it goes on
  with the address 11.
\<close>

definition two_stabs :: "int \<Rightarrow> Stab option" where
  "two_stabs i = (if i = 0 then Some \<lparr>n_strx = 0, n_type = N_FUN, n_other = 0, n_desc = 0, n_value = 10\<rparr>
     else if i = 1 then Some \<lparr>n_strx = 0, n_type = N_FUN, n_other = 0, n_desc = 0, n_value = 11\<rparr> else None)"

lemma stab_binsearch_next_byte: "stab_binsearch two_stabs 0 1 N_FUN 10 = Some (1, 1)"
  by (simp add: stab_binsearch_def binsearch_loop.simps scan_down.simps two_stabs_def)

section \<open>Properties\<close>

text \<open>
  (C22) On a table whose entries of the type are in increasing order, none of them one byte after the
  address and at least one at or before it, \<^verbatim>\<open>stab_binsearch\<close> ends.  The left end it returns is the
  last entry of the type at or before the address; the right end is the index just before the
  next entry of the type, or the end of the table when there is none.
\<close>

theorem stab_binsearch_finds:
  assumes "searchable stab f type L R addr"
    and "L \<le> k" and "k \<le> R" and "n_type (f k) = type" and "n_value (f k) \<le> addr"
  shows "\<exists>l r. stab_binsearch stab L R type addr = Some (l, r) \<and> L \<le> l \<and> l \<le> r \<and> r \<le> R \<and>
     n_type (f l) = type \<and> n_value (f l) \<le> addr \<and>
     (\<forall>i. l < i \<and> i \<le> r \<longrightarrow> n_type (f i) \<noteq> type) \<and> (r = R \<or> n_type (f (r + 1)) = type) \<and>
     (\<forall>i. r < i \<and> i \<le> R \<and> n_type (f i) = type \<longrightarrow> addr < n_value (f i))"
  by (rule stab_binsearch_entry [OF assms])

text \<open>The table of the example in the comment of \<^verbatim>\<open>stab_binsearch\<close>, and the result it gives.\<close>

definition so_stabs :: "(int \<times> u32) list" where
  "so_stabs = [(0, 0xF0100000), (13, 0xF0100040), (117, 0xF0100176), (118, 0xF0100178), (555, 0xF0100652),
     (556, 0xF0100654), (657, 0xF0100849)]"

definition so_stab :: "int \<Rightarrow> Stab" where
  "so_stab i =
     (case map_of so_stabs i of
        Some a \<Rightarrow> \<lparr>n_strx = 0, n_type = N_SO, n_other = 0, n_desc = 0, n_value = a\<rparr>
      | None \<Rightarrow> \<lparr>n_strx = 0, n_type = N_SLINE, n_other = 0, n_desc = 0, n_value = 0\<rparr>)"

lemma so_stab_SO: "n_type (so_stab i) = N_SO \<longleftrightarrow> i \<in> {0, 13, 117, 118, 555, 556, 657}"
  by (auto simp: so_stab_def so_stabs_def N_SO_def N_SLINE_def)

lemma so_stab_value:
  "n_value (so_stab 0) = 0xF0100000" "n_value (so_stab 13) = 0xF0100040" "n_value (so_stab 117) = 0xF0100176"
  "n_value (so_stab 118) = 0xF0100178" "n_value (so_stab 555) = 0xF0100652" "n_value (so_stab 556) = 0xF0100654"
  "n_value (so_stab 657) = 0xF0100849"
  by (simp_all add: so_stab_def so_stabs_def)

lemma so_stab_searchable: "searchable (\<lambda>i. Some (so_stab i)) so_stab N_SO 0 657 0xF0100184"
  unfolding searchable_def so_stab_SO by (auto simp: so_stab_value)

theorem stab_binsearch_finds_witness:
  "stab_binsearch (\<lambda>i. Some (so_stab i)) 0 657 N_SO 0xF0100184 = Some (118, 554)"
proof -
  obtain l r where b: "stab_binsearch (\<lambda>i. Some (so_stab i)) 0 657 N_SO 0xF0100184 = Some (l, r)"
    and lr: "l \<le> r" "r \<le> 657" and l: "l \<in> {0, 13, 117, 118, 555, 556, 657}" "n_value (so_stab l) \<le> 0xF0100184"
    and gap: "\<And>i. l < i \<Longrightarrow> i \<le> r \<Longrightarrow> i \<notin> {0, 13, 117, 118, 555, 556, 657}"
    and next_stab: "r = 657 \<or> r + 1 \<in> {0, 13, 117, 118, 555, 556, 657}"
    and above: "\<And>i. r < i \<Longrightarrow> i \<le> 657 \<Longrightarrow> i \<in> {0, 13, 117, 118, 555, 556, 657} \<Longrightarrow> 0xF0100184 < n_value (so_stab i)"
    using stab_binsearch_finds [OF so_stab_searchable, of 0] by (auto simp: so_stab_SO so_stab_value)
  have "118 \<le> r" using above [of 118] by (force simp: so_stab_value)
  moreover have "l \<in> {0, 13, 117, 118}" using l by (auto simp: so_stab_value)
  ultimately have "l = 118" using gap [of 118] by auto
  moreover have "r < 555" using gap [of 555] \<open>l = 118\<close> by force
  ultimately show ?thesis using b next_stab \<open>118 \<le> r\<close> by auto
qed

end
