(* ===== verification/Monitor.thy ===== *)
theory Monitor
  imports Kdebug
begin

text \<open>
  The kernel monitor, \<^verbatim>\<open>kern/monitor.c\<close>, the line editor it reads with, \<^verbatim>\<open>lib/readline.c\<close>, and the
  printing of trap frames, from \<^verbatim>\<open>kern/trap.c\<close>.  Input is what the console's devices will
  deliver; when it is used up the monitor polls for ever, which is the exit \<open>Monitor\<close>.
\<close>

section \<open>Trap frames\<close>

definition T_DIVIDE :: u32 where [jos_consts]: "T_DIVIDE = 0"
definition T_DEBUG :: u32 where [jos_consts]: "T_DEBUG = 1"
definition T_NMI :: u32 where [jos_consts]: "T_NMI = 2"
definition T_BRKPT :: u32 where [jos_consts]: "T_BRKPT = 3"
definition T_OFLOW :: u32 where [jos_consts]: "T_OFLOW = 4"
definition T_BOUND :: u32 where [jos_consts]: "T_BOUND = 5"
definition T_ILLOP :: u32 where [jos_consts]: "T_ILLOP = 6"
definition T_DEVICE :: u32 where [jos_consts]: "T_DEVICE = 7"
definition T_DBLFLT :: u32 where [jos_consts]: "T_DBLFLT = 8"
definition T_TSS :: u32 where [jos_consts]: "T_TSS = 10"
definition T_SEGNP :: u32 where [jos_consts]: "T_SEGNP = 11"
definition T_STACK :: u32 where [jos_consts]: "T_STACK = 12"
definition T_GPFLT :: u32 where [jos_consts]: "T_GPFLT = 13"
definition T_PGFLT :: u32 where [jos_consts]: "T_PGFLT = 14"
definition T_FPERR :: u32 where [jos_consts]: "T_FPERR = 16"
definition T_ALIGN :: u32 where [jos_consts]: "T_ALIGN = 17"
definition T_MCHK :: u32 where [jos_consts]: "T_MCHK = 18"
definition T_SIMDERR :: u32 where [jos_consts]: "T_SIMDERR = 19"
definition T_SYSCALL :: u32 where [jos_consts]: "T_SYSCALL = 48"
definition IRQ_OFFSET :: u32 where [jos_consts]: "IRQ_OFFSET = 32"
definition IRQ_TIMER :: u32 where [jos_consts]: "IRQ_TIMER = 0"
definition IRQ_KBD :: u32 where [jos_consts]: "IRQ_KBD = 1"
definition IRQ_SERIAL :: u32 where [jos_consts]: "IRQ_SERIAL = 4"
definition IRQ_SPURIOUS :: u32 where [jos_consts]: "IRQ_SPURIOUS = 7"
definition IRQ_IDE :: u32 where [jos_consts]: "IRQ_IDE = 14"
definition IRQ_ERROR :: u32 where [jos_consts]: "IRQ_ERROR = 19"

definition excnames :: "string list" where
  "excnames = [''Divide error'', ''Debug'', ''Non-Maskable Interrupt'', ''Breakpoint'', ''Overflow'',
     ''BOUND Range Exceeded'', ''Invalid Opcode'', ''Device Not Available'', ''Double Fault'',
     ''Coprocessor Segment Overrun'', ''Invalid TSS'', ''Segment Not Present'', ''Stack Fault'',
     ''General Protection'', ''Page Fault'', ''(unknown trap)'', ''x87 FPU Floating-Point Error'',
     ''Alignment Check'', ''Machine-Check'', ''SIMD Floating-Point Exception'']"

definition trapname :: "u32 \<Rightarrow> string" where
  "trapname trapno =
     (if unat trapno < length excnames then excnames ! unat trapno
      else if trapno = T_SYSCALL then ''System call''
      else if trapno \<ge> IRQ_OFFSET \<and> trapno < IRQ_OFFSET + 16 then ''Hardware Interrupt''
      else ''(unknown trap)'')"

text \<open>
  A pointer to a trap frame: to one on the kernel stack, with its address and contents, or to the
  \<^verbatim>\<open>env_tf\<close> of an environment.
\<close>

datatype tfp = StackTf u32 Trapframe | EnvTf nat

definition tf_get :: "tfp \<Rightarrow> kstate \<Rightarrow> Trapframe" where
  "tf_get tf s = (case tf of StackTf _ f \<Rightarrow> f | EnvTf e \<Rightarrow> env_tf (envs s e))"

definition tf_addr :: "tfp \<Rightarrow> kstate \<Rightarrow> u32" where
  "tf_addr tf s = (case tf of StackTf a _ \<Rightarrow> a | EnvTf e \<Rightarrow> envs_kva s + word_of_nat e * sizeof_Env)"

definition tf_set :: "tfp \<Rightarrow> (Trapframe \<Rightarrow> Trapframe) \<Rightarrow> kstate \<Rightarrow> tfp \<times> kstate" where
  "tf_set tf g s =
     (case tf of
        StackTf a f \<Rightarrow> (StackTf a (g f), s)
      | EnvTf e \<Rightarrow> (EnvTf e, upd_env e (\<lambda>x. x\<lparr>env_tf := g (env_tf x)\<rparr>) s))"

definition print_word :: "string \<Rightarrow> u32 \<Rightarrow> kstate \<Rightarrow> kstate option" where
  "print_word name v = kprintf (name @ ''0x%08x'' @ nl) [VInt v]"

definition print_half :: "string \<Rightarrow> u16 \<Rightarrow> kstate \<Rightarrow> kstate option" where
  "print_half name v = kprintf (name @ ''0x----%04x'' @ nl) [VInt (ucast v)]"

definition print_regs :: "PushRegs \<Rightarrow> kstate \<Rightarrow> kstate option" where
  "print_regs regs s =
     do { s \<leftarrow> print_word ''  edi  '' (reg_edi regs) s;
          s \<leftarrow> print_word ''  esi  '' (reg_esi regs) s;
          s \<leftarrow> print_word ''  ebp  '' (reg_ebp regs) s;
          s \<leftarrow> print_word ''  oesp '' (reg_oesp regs) s;
          s \<leftarrow> print_word ''  ebx  '' (reg_ebx regs) s;
          s \<leftarrow> print_word ''  edx  '' (reg_edx regs) s;
          s \<leftarrow> print_word ''  ecx  '' (reg_ecx regs) s;
          print_word ''  eax  '' (reg_eax regs) s }"

definition print_trapframe :: "tfp \<Rightarrow> kstate \<Rightarrow> kstate option" where
  "print_trapframe p s =
     (let tf = tf_get p s in
      do { s \<leftarrow> kprintf (''TRAP frame at %p from CPU %d'' @ nl) [VInt (tf_addr p s), VInt (cpunum s)] s;
           s \<leftarrow> print_regs (tf_regs tf) s;
           s \<leftarrow> print_half ''  es   '' (tf_es tf) s;
           s \<leftarrow> print_half ''  ds   '' (tf_ds tf) s;
           s \<leftarrow> kprintf (''  trap 0x%08x %s'' @ nl) [VInt (tf_trapno tf), vstr (trapname (tf_trapno tf))] s;
           s \<leftarrow> (if tf_addr p s = last_tf s \<and> tf_trapno tf = T_PGFLT then print_word ''  cr2  '' (cr2 s) s else Some s);
           s \<leftarrow> kprintf ''  err  0x%08x'' [VInt (tf_err tf)] s;
           s \<leftarrow> (if tf_trapno tf = T_PGFLT
                then kprintf ('' [%s, %s, %s]'' @ nl)
                       [vstr (if tf_err tf AND 4 \<noteq> 0 then ''user'' else ''kernel''),
                        vstr (if tf_err tf AND 2 \<noteq> 0 then ''write'' else ''read''),
                        vstr (if tf_err tf AND 1 \<noteq> 0 then ''protection'' else ''not-present'')] s
                else kprintf nl [] s);
           s \<leftarrow> print_word ''  eip  '' (tf_eip tf) s;
           s \<leftarrow> print_half ''  cs   '' (tf_cs tf) s;
           s \<leftarrow> print_word ''  flag '' (tf_eflags tf) s;
           if tf_cs tf AND 3 \<noteq> 0
           then do { s \<leftarrow> print_word ''  esp  '' (tf_esp tf) s; print_half ''  ss   '' (tf_ss tf) s }
           else Some s })"

section \<open>Reading a line\<close>

definition BUFLEN :: nat where [jos_consts]: "BUFLEN = 1024"

text \<open>\<open>None\<close> when no character is waiting: the loop goes on polling.\<close>

definition getchar :: "console \<Rightarrow> (int option \<times> console) option" where
  "getchar con = do { (c, con) \<leftarrow> cons_getc con; Some (if c = 0 then None else Some c, con) }"

definition iscons :: "int \<Rightarrow> bool" where
  "iscons fdnum = True"

datatype line = Line "u8 list" | NoLine | Waiting

text \<open>The loop of \<^verbatim>\<open>readline\<close> with the characters read so far, and a bound on the characters to come.\<close>

fun readline_loop :: "nat \<Rightarrow> u8 list \<Rightarrow> console \<Rightarrow> (line \<times> console) option" where
  "readline_loop 0 buf con = None"
| "readline_loop (Suc n) buf con =
     do { (c, con) \<leftarrow> getchar con;
          case c of
            None \<Rightarrow> Some (Waiting, con)
          | Some c \<Rightarrow>
              let i = length buf; echo = (\<lambda>b con. if iscons 0 then cputchar b con else con) in
              if c < 0
              then if c \<noteq> - E_EOF
                   then do { con \<leftarrow> cprintf (''read error: %e'' @ nl) [VInt (word_of_int c)] con; Some (NoLine, con) }
                   else Some (NoLine, con)
              else if (c = 0x08 \<or> c = 0x7F) \<and> i > 0
              then readline_loop n (butlast buf) (echo 0x08 con)
              else if c \<ge> 0x20 \<and> i < BUFLEN - 1
              then readline_loop n (buf @ [word_of_int c]) (echo (word_of_int c) con)
              else if c = 0x0A \<or> c = 0x0D
              then Some (Line buf, echo 0x0A con)
              else readline_loop n buf con }"

text \<open>Every character the devices can still deliver is in the ring or pending at a device.\<close>

definition pending :: "console \<Rightarrow> nat" where
  "pending con = length (cons_queue con) + length (serial_in con) + length (kbd_in con)"

definition readline :: "string \<Rightarrow> console \<Rightarrow> (line \<times> console) option" where
  "readline prompt con =
     do { con \<leftarrow> cprintf ''%s'' [vstr prompt] con;
          readline_loop (pending con + 1) [] con }"

section \<open>Commands\<close>

definition commands :: "(string \<times> string) list" where
  "commands = [(''help'', ''Display this list of commands''),
     (''kerninfo'', ''Display information about the kernel''),
     (''backtrace'', ''Display function backtrace info''),
     (''continue'', ''Continue execute in current environment''),
     (''singlestep'', ''Stop after executing current instruction'')]"

definition mon_help :: "kstate \<Rightarrow> kstate option" where
  "mon_help = foldM (\<lambda>(name, desc). kprintf (''%s - %s'' @ nl) [vstr name, vstr desc]) commands"

definition print_sym :: "string \<Rightarrow> u32 \<Rightarrow> kstate \<Rightarrow> kstate option" where
  "print_sym name a = kprintf (name @ ''%08x (virt)  %08x (phys)'' @ nl) [VInt a, VInt (a - KERNBASE)]"

definition mon_kerninfo :: "kstate \<Rightarrow> kstate option" where
  "mon_kerninfo s =
     do { s \<leftarrow> kprintf (''Special kernel symbols:'' @ nl) [] s;
          s \<leftarrow> kprintf (''  _start                  %08x (phys)'' @ nl) [VInt (sym_start (syms s))] s;
          s \<leftarrow> print_sym ''  entry  '' (sym_entry (syms s)) s;
          s \<leftarrow> print_sym ''  etext  '' (sym_etext (syms s)) s;
          s \<leftarrow> print_sym ''  edata  '' (sym_edata (syms s)) s;
          s \<leftarrow> print_sym ''  end    '' (kend s) s;
          kprintf (''Kernel executable memory footprint: %dKB'' @ nl)
            [VInt (ROUNDUP (kend s - sym_entry (syms s)) 1024 div 1024)] s }"

partial_function (option) backtrace_from :: "u32 \<Rightarrow> kstate \<Rightarrow> kstate option" where
  "backtrace_from fp s =
     (if fp = 0 then Some s
      else do { bs \<leftarrow> kread 28 fp s;
                let eip = le32 bs 1;
                s \<leftarrow> kprintf (''ebp %x  eip %08x  args %08x %08x %08x %08x %08x'' @ nl)
                      [VInt fp, VInt eip, VInt (le32 bs 2), VInt (le32 bs 3), VInt (le32 bs 4), VInt (le32 bs 5),
                       VInt (le32 bs 6)] s;
                ((_, info), s) \<leftarrow> debuginfo_eip eip s;
                file \<leftarrow> cptr_string (eip_file info) s;
                name \<leftarrow> (case eip_fn_name info of
                          Lit cs \<Rightarrow> Some (map byte cs)
                        | At a \<Rightarrow> kstring (nat (eip_fn_namelen info)) a s);
                s \<leftarrow> kprintf (''%s:%d: %.*s+%d'' @ nl)
                      [VStr (Some file), VInt (word_of_int (eip_line info)), VInt (word_of_int (eip_fn_namelen info)),
                       VStr (Some name), VInt (eip - eip_fn_addr info)] s;
                backtrace_from (le32 bs 0) s })"

definition mon_backtrace :: "kstate \<Rightarrow> kstate option" where
  "mon_backtrace s = do { s \<leftarrow> kprintf (''Stack backtrace:'' @ nl) [] s; backtrace_from (ebp s) s }"

definition mon_continue :: "tfp option \<Rightarrow> kstate \<Rightarrow> int kres" where
  "mon_continue tf s =
     do { tf \<leftarrow> tf;
          if tf_trapno (tf_get tf s) \<noteq> T_BRKPT \<and> tf_trapno (tf_get tf s) \<noteq> T_DEBUG
          then do { s \<leftarrow> kprintf (''trap is not caused by T_BRKPT/T_DEBUG'' @ nl) [] s; ret (- 1) s }
          else do { c \<leftarrow> curenv s;
                    if env_status (envs s c) \<noteq> ENV_RUNNING then None else leave (env_run c s) } }"

text \<open>The new pointer is the same one; a frame on the stack carries its new contents.\<close>

definition mon_singlestep :: "tfp option \<Rightarrow> kstate \<Rightarrow> (int \<times> tfp) kres" where
  "mon_singlestep tf s =
     do { tf \<leftarrow> tf;
          if tf_trapno (tf_get tf s) \<noteq> T_BRKPT \<and> tf_trapno (tf_get tf s) \<noteq> T_DEBUG
          then do { s \<leftarrow> kprintf (''Monitor is not invoked from breakpoint/debug trap'' @ nl) [] s; ret (- 1, tf) s }
          else do { let (tf, s) = tf_set tf (\<lambda>f. f\<lparr>tf_eflags := tf_eflags f XOR 0x100\<rparr>) s;
                    s \<leftarrow> (if tf_eflags (tf_get tf s) AND 0x100 \<noteq> 0
                         then kprintf (''Enable single step'' @ nl) [] s
                         else kprintf (''Disable single step'' @ nl) [] s);
                    ret (0, tf) s } }"

section \<open>The command interpreter\<close>

definition MAXARGS :: nat where [jos_consts]: "MAXARGS = 16"

definition whitespace :: "u8 \<Rightarrow> bool" where
  "whitespace c \<longleftrightarrow> c = 0x09 \<or> c = 0x0D \<or> c = 0x0A \<or> c = 0x20"

lemma dropWhile_shorter:
  assumes "dropWhile p xs \<noteq> []"
  shows "length (dropWhile (\<lambda>c. \<not> p c) (dropWhile p xs)) < length xs"
proof -
  obtain y ys where y: "dropWhile p xs = y # ys" using assms by (cases "dropWhile p xs") auto
  then have "\<not> p y" by (metis hd_dropWhile list.distinct(1) list.sel(1))
  then have "length (dropWhile (\<lambda>c. \<not> p c) (y # ys)) \<le> length ys" by (simp add: length_dropWhile_le)
  moreover have "length (y # ys) \<le> length xs" using length_dropWhile_le [of p xs] y by simp
  ultimately show ?thesis using y by simp
qed

text \<open>The arguments in a line, \<open>None\<close> when there are too many.\<close>

function parse_args :: "u8 list list \<Rightarrow> u8 list \<Rightarrow> u8 list list option" where
  "parse_args argv buf =
     (let buf = dropWhile whitespace buf in
      if buf = [] then Some argv
      else if length argv = MAXARGS - 1 then None
      else parse_args (argv @ [takeWhile (\<lambda>c. \<not> whitespace c) buf]) (dropWhile (\<lambda>c. \<not> whitespace c) buf))"
  by auto
termination by (relation "measure (\<lambda>(_, buf). length buf)") (simp_all add: dropWhile_shorter del: dropWhile_eq_Nil_conv)

declare parse_args.simps [simp del]

definition runcmd :: "u8 list \<Rightarrow> tfp option \<Rightarrow> kstate \<Rightarrow> (int \<times> tfp option) kres" where
  "runcmd buf tf s =
     (case parse_args [] buf of
        None \<Rightarrow> do { s \<leftarrow> kprintf (''Too many arguments (max %d)'' @ nl) [VInt (word_of_nat MAXARGS)] s; ret (0, tf) s }
      | Some [] \<Rightarrow> ret (0, tf) s
      | Some (cmd # _) \<Rightarrow>
          if cmd = map byte ''help'' then do { s \<leftarrow> mon_help s; ret (0, tf) s }
          else if cmd = map byte ''kerninfo'' then do { s \<leftarrow> mon_kerninfo s; ret (0, tf) s }
          else if cmd = map byte ''backtrace'' then do { s \<leftarrow> mon_backtrace s; ret (0, tf) s }
          else if cmd = map byte ''continue'' then andthen (mon_continue tf s) (\<lambda>r. ret (r, tf))
          else if cmd = map byte ''singlestep'' then andthen (mon_singlestep tf s) (\<lambda>(r, tf). ret (r, Some tf))
          else do { s \<leftarrow> kprintf (''Unknown command '' @ [CHR 0x27] @ ''%s'' @ [CHR 0x27] @ nl) [VStr (Some cmd)] s;
                    ret (0, tf) s })"

text \<open>The loop of \<^verbatim>\<open>monitor\<close> with a bound on the lines to come.\<close>

fun monitor_loop :: "nat \<Rightarrow> tfp option \<Rightarrow> kstate \<Rightarrow> unit kres" where
  "monitor_loop 0 tf s = None"
| "monitor_loop (Suc n) tf s =
     do { (l, con) \<leftarrow> readline ''K> '' (cons s);
          let s = s\<lparr>cons := con\<rparr>;
          case l of
            Waiting \<Rightarrow> Some (Leaves Monitor, s)
          | NoLine \<Rightarrow> monitor_loop n tf s
          | Line buf \<Rightarrow> andthen (runcmd buf tf s) (\<lambda>(r, tf) s. if r < 0 then ret () s else monitor_loop n tf s) }"

definition monitor :: "tfp option \<Rightarrow> kstate \<Rightarrow> unit kres" where
  "monitor tf s =
     do { s \<leftarrow> kprintf (''Welcome to the JOS kernel monitor!'' @ nl) [] s;
          s \<leftarrow> kprintf (''Type '' @ [CHR 0x27] @ ''help'' @ [CHR 0x27] @ '' for a list of commands.'' @ nl) [] s;
          s \<leftarrow> (case tf of None \<Rightarrow> Some s | Some tf \<Rightarrow> print_trapframe tf s);
          monitor_loop (pending (cons s) + 1) tf s }"

section \<open>Reading a line ends\<close>











section \<open>Properties\<close>



end
