(* ===== verification/Trap.thy ===== *)
theory Trap
  imports Monitor
begin

text \<open>
  Traps, \<^verbatim>\<open>kern/trap.c\<close>: the interrupt descriptor table, the dispatch of a trap, and the page-fault
  upcall of user environments.  \<^verbatim>\<open>trap\<close> does not return: it ends in an \<open>exit\<close>.  Acknowledging
  an interrupt at the local APIC has no effect on the state modelled here.
\<close>

section \<open>The descriptor table\<close>

record Gatedesc =
  gd_off_15_0 :: u16
  gd_sel :: u16
  gd_args :: u8
  gd_rsv1 :: u8
  gd_type :: u8
  gd_s :: bool
  gd_dpl :: u8
  gd_p :: bool
  gd_off_31_16 :: u16

definition STS_IG32 :: u8 where [jos_consts]: "STS_IG32 = 0xE"
definition STS_TG32 :: u8 where [jos_consts]: "STS_TG32 = 0xF"

definition SETGATE :: "bool \<Rightarrow> u16 \<Rightarrow> u32 \<Rightarrow> u8 \<Rightarrow> Gatedesc" where
  "SETGATE istrap sel off dpl =
     \<lparr>gd_off_15_0 = ucast (off AND 0xFFFF), gd_sel = sel, gd_args = 0, gd_rsv1 = 0,
      gd_type = (if istrap then STS_TG32 else STS_IG32), gd_s = False, gd_dpl = dpl, gd_p = True,
      gd_off_31_16 = ucast (drop_bit 16 off)\<rparr>"

text \<open>
  The entry points \<^verbatim>\<open>kern/trapentry.S\<close> generates: the name, the trap number it pushes, and whether
  the processor has already pushed an error code.
\<close>

definition handlers :: "(string \<times> u32 \<times> bool) list" where
  "handlers =
     [(''divide_handler'', T_DIVIDE, False), (''debug_handler'', T_DEBUG, False), (''nmi_handler'', T_NMI, False),
      (''brkpt_handler'', T_BRKPT, False), (''oflow_handler'', T_OFLOW, False), (''bound_handler'', T_BOUND, False),
      (''illop_handler'', T_ILLOP, False), (''device_handler'', T_DEVICE, False), (''dblflt_handler'', T_DBLFLT, True),
      (''tss_handler'', T_TSS, True), (''segnp_handler'', T_SEGNP, True), (''stack_handler'', T_STACK, True),
      (''gpflt_handler'', T_GPFLT, True), (''pgflt_handler'', T_PGFLT, True), (''fperr_handler'', T_FPERR, False),
      (''align_handler'', T_ALIGN, True), (''mchk_handler'', T_MCHK, False), (''simderr_handler'', T_SIMDERR, False),
      (''syscall_handler'', T_SYSCALL, False), (''timer_handler'', IRQ_OFFSET + IRQ_TIMER, False),
      (''kbd_handler'', IRQ_OFFSET + IRQ_KBD, False), (''serial_handler'', IRQ_OFFSET + IRQ_SERIAL, False),
      (''spurious_handler'', IRQ_OFFSET + IRQ_SPURIOUS, False), (''ide_handler'', IRQ_OFFSET + IRQ_IDE, False),
      (''error_handler'', IRQ_OFFSET + IRQ_ERROR, False)]"

text \<open>The vector, the handler and the privilege level of each gate \<^verbatim>\<open>trap_init\<close> sets.\<close>

definition gates :: "(u32 \<times> string \<times> u8) list" where
  "gates =
     [(T_DIVIDE, ''divide_handler'', 0), (T_DEBUG, ''debug_handler'', 0), (T_NMI, ''nmi_handler'', 0),
      (T_BRKPT, ''brkpt_handler'', 3), (T_OFLOW, ''oflow_handler'', 0), (T_BOUND, ''bound_handler'', 0),
      (T_ILLOP, ''illop_handler'', 0), (T_DEVICE, ''device_handler'', 0), (T_DBLFLT, ''dblflt_handler'', 0),
      (T_TSS, ''tss_handler'', 0), (T_SEGNP, ''segnp_handler'', 0), (T_STACK, ''stack_handler'', 0),
      (T_GPFLT, ''gpflt_handler'', 0), (T_PGFLT, ''pgflt_handler'', 0), (T_FPERR, ''fperr_handler'', 0),
      (T_ALIGN, ''align_handler'', 0), (T_MCHK, ''mchk_handler'', 0), (T_SIMDERR, ''simderr_handler'', 0),
      (T_SYSCALL, ''syscall_handler'', 3), (IRQ_OFFSET + IRQ_TIMER, ''timer_handler'', 0),
      (IRQ_OFFSET + IRQ_KBD, ''kbd_handler'', 0), (IRQ_OFFSET + IRQ_SERIAL, ''serial_handler'', 0),
      (IRQ_OFFSET + IRQ_SPURIOUS, ''spurious_handler'', 0), (IRQ_OFFSET + IRQ_IDE, ''ide_handler'', 0),
      (IRQ_OFFSET + IRQ_ERROR, ''error_handler'', 0)]"

text \<open>\<open>addr\<close> gives the address the linker chose for a symbol.\<close>

definition trap_init :: "(string \<Rightarrow> u32) \<Rightarrow> (u32 \<Rightarrow> Gatedesc) \<Rightarrow> u32 \<Rightarrow> Gatedesc" where
  "trap_init addr = fold (\<lambda>(v, h, dpl) idt. idt(v := SETGATE False GD_KT (addr h) dpl)) gates"

text \<open>The address a gate leads to.\<close>

definition gate_offset :: "Gatedesc \<Rightarrow> u32" where
  "gate_offset g = push_bit 16 (ucast (gd_off_31_16 g)) OR ucast (gd_off_15_0 g)"

lemma gate_offset_SETGATE: "gate_offset (SETGATE t sel off dpl) = off"
proof -
  have "off AND 0xFFFF = take_bit 16 off" using take_bit_eq_mask [of 16 off] by (simp add: mask_eq_exp_minus_1)
  then show ?thesis
    by (intro bit_word_eqI) (auto simp: gate_offset_def SETGATE_def bit_simps)
qed

lemma fold_gates:
  assumes "distinct (map fst gs)" and "(v, h, dpl) \<in> set gs"
  shows "fold (\<lambda>(v, h, dpl) idt. idt(v := SETGATE False GD_KT (addr h) dpl)) gs idt v = SETGATE False GD_KT (addr h) dpl"
proof -
  have keep: "fold (\<lambda>(v, h, dpl) idt. idt(v := SETGATE False GD_KT (addr h) dpl)) gs idt v = idt v"
    if "v \<notin> fst ` set gs" for gs and idt
    using that by (induction gs arbitrary: idt) auto
  show ?thesis using assms keep by (induction gs arbitrary: idt) force+
qed

section \<open>Page faults\<close>

definition sizeof_UTrapframe :: u32 where [jos_consts]: "sizeof_UTrapframe = 52"

text \<open>The bytes of a \<^verbatim>\<open>struct UTrapframe\<close>, in the order of the stores.\<close>

definition utf_bytes :: "u32 \<Rightarrow> Trapframe \<Rightarrow> u8 list" where
  "utf_bytes fault_va tf =
     (let r = tf_regs tf in
      concat (map bytes32 [fault_va, tf_err tf, reg_edi r, reg_esi r, reg_ebp r, reg_oesp r, reg_ebx r, reg_edx r,
        reg_ecx r, reg_eax r, tf_eip tf, tf_eflags tf, tf_esp tf]))"

definition utf_addr :: "Trapframe \<Rightarrow> u32" where
  "utf_addr tf =
     (if tf_esp tf \<ge> UXSTACKTOP - PGSIZE \<and> tf_esp tf \<le> UXSTACKTOP - 1
      then tf_esp tf - sizeof_UTrapframe - 4
      else UXSTACKTOP - sizeof_UTrapframe)"

definition fault_destroy :: "nat \<Rightarrow> u32 \<Rightarrow> tfp \<Rightarrow> kstate \<Rightarrow> unit kres" where
  "fault_destroy c fault_va tf s =
     do { s \<leftarrow> kprintf (''[%08x] user fault va %08x ip %08x'' @ nl)
            [VInt (env_id (envs s c)), VInt fault_va, VInt (tf_eip (tf_get tf s))] s;
          s \<leftarrow> print_trapframe tf s;
          env_destroy c s }"

definition page_fault_handler :: "tfp \<Rightarrow> kstate \<Rightarrow> unit kres" where
  "page_fault_handler tf s =
     (let fault_va = cr2 s; f = tf_get tf s in
      if tf_cs f AND 3 = 0 then None
      else do { c \<leftarrow> curenv s;
                if env_pgfault_upcall (envs s c) \<noteq> 0
                then let utf = utf_addr f in
                     andthen (user_mem_assert c utf sizeof_UTrapframe PTE_W s) (\<lambda>_ s.
                       if utf > UXSTACKTOP - PGSIZE
                       then do { s \<leftarrow> kwrite (utf_bytes fault_va (tf_get tf s)) utf s;
                                 let s = upd_env c (\<lambda>x. x\<lparr>env_tf := (env_tf x)\<lparr>tf_esp := utf,
                                            tf_eip := env_pgfault_upcall x\<rparr>\<rparr>) s;
                                 leave (env_run c s) }
                       else fault_destroy c fault_va tf s)
                else fault_destroy c fault_va tf s })"

section \<open>Dispatch\<close>

definition trap_dispatch :: "tfp \<Rightarrow> kstate \<Rightarrow> unit kres" where
  "trap_dispatch tf s =
     (let f = tf_get tf s; n = tf_trapno f; r = tf_regs f in
      if n = T_PGFLT then page_fault_handler tf s
      else if n = T_BRKPT \<or> n = T_DEBUG
      then do { s \<leftarrow> kprintf (''Triggered Breakpoint at 0x%08x'' @ nl) [VInt (tf_eip f)] s; monitor (Some tf) s }
      else if n = T_SYSCALL
      then andthen (syscall (reg_eax r) (reg_edx r) (reg_ecx r) (reg_ebx r) (reg_edi r) (reg_esi r) s) (\<lambda>v s.
             ret () (snd (tf_set tf (\<lambda>f. f\<lparr>tf_regs := (tf_regs f)\<lparr>reg_eax := word_of_int v\<rparr>\<rparr>) s)))
      else if n = IRQ_OFFSET + IRQ_SPURIOUS
      then do { s \<leftarrow> kprintf (''Spurious interrupt on irq 7'' @ nl) [] s; s \<leftarrow> print_trapframe tf s; ret () s }
      else if n = IRQ_OFFSET + IRQ_TIMER
      then do { s \<leftarrow> time_tick s; leave (sched_yield s) }
      else if n = IRQ_OFFSET + IRQ_KBD
      then do { c \<leftarrow> kbd_intr (cons s); ret () (s\<lparr>cons := c\<rparr>) }
      else if n = IRQ_OFFSET + IRQ_SERIAL
      then do { c \<leftarrow> serial_intr (cons s); ret () (s\<lparr>cons := c\<rparr>) }
      else do { s \<leftarrow> print_trapframe tf s;
                if tf_cs f = GD_KT then None
                else do { c \<leftarrow> curenv s; env_destroy c s } })"

text \<open>The end of \<^verbatim>\<open>trap\<close>, once the frame to work on is known.\<close>

definition trap_on :: "tfp \<Rightarrow> kstate \<Rightarrow> (exit \<times> kstate) option" where
  "trap_on tf s =
     do { (x, s) \<leftarrow> trap_dispatch tf (s\<lparr>last_tf := tf_addr tf s\<rparr>);
          case x of
            Leaves x \<Rightarrow> Some (x, s)
          | Returns _ \<Rightarrow>
              (case curenv s of
                 Some c \<Rightarrow> if env_status (envs s c) = ENV_RUNNING then env_run c s else sched_yield s
               | None \<Rightarrow> sched_yield s) }"

text \<open>\<open>a\<close> is the address of the frame \<open>f\<close> that the entry code pushed on the kernel stack.\<close>

definition trap :: "u32 \<Rightarrow> Trapframe \<Rightarrow> kstate \<Rightarrow> (exit \<times> kstate) option" where
  "trap a f s =
     (if panicstr s then Some (HaltCpu, s)
      else do { s \<leftarrow> (if cpu_status s = CPU_HALTED then lock_kernel (s\<lparr>cpu_status := CPU_STARTED\<rparr>)
                     else Some (s\<lparr>cpu_status := CPU_STARTED\<rparr>));
                if eflags s AND FL_IF \<noteq> 0 then None
                else if tf_cs f AND 3 = 3
                then do { c \<leftarrow> curenv s;
                          s \<leftarrow> lock_kernel s;
                          if env_status (envs s c) = ENV_DYING
                          then do { s \<leftarrow> env_free c s; sched_yield (s\<lparr>curenv := None\<rparr>) }
                          else trap_on (EnvTf c) (upd_env c (\<lambda>x. x\<lparr>env_tf := f\<rparr>) s) }
                else trap_on (StackTf a f) s })"

section \<open>How the kernel is left\<close>

text \<open>
  The machine is ready for what comes next: user code of the current environment in its own
  address space, or a halted CPU without an environment; in both cases the kernel lock is free.
  A monitor that waits for input keeps the lock.
\<close>

definition exit_ok :: "exit \<Rightarrow> kstate \<Rightarrow> bool" where
  "exit_ok x s =
     (case x of
        RunEnv e \<Rightarrow> curenv s = Some e \<and> env_status (envs s e) = ENV_RUNNING \<and>
          env_pgdir (envs s e) = Some (cr3 s) \<and> env_cpunum (envs s e) = cpunum s \<and> \<not> klock s
      | HaltCpu \<Rightarrow> curenv s = None \<and> cr3 s = kern_pgdir s \<and> cpu_status s = CPU_HALTED \<and> \<not> klock s
      | Monitor \<Rightarrow> True)"

definition exits_ok :: "(exit \<times> kstate) option \<Rightarrow> bool" where
  "exits_ok m = (case m of None \<Rightarrow> True | Some (x, s) \<Rightarrow> exit_ok x s)"

definition leaving_ok :: "'a kres \<Rightarrow> bool" where
  "leaving_ok m = (case m of Some (Leaves x, s) \<Rightarrow> exit_ok x s | _ \<Rightarrow> True)"

named_theorems leaving

lemma exits_ok_bind [leaving]: "(\<And>a. m = Some a \<Longrightarrow> exits_ok (f a)) \<Longrightarrow> exits_ok (Option.bind m f)"
  by (cases m) (auto simp: exits_ok_def)

lemma exits_ok_simps [simp]: "exits_ok None" "exits_ok (Some (x, s)) = exit_ok x s"
  by (simp_all add: exits_ok_def)

lemma leaving_ok_bind [leaving]: "(\<And>a. m = Some a \<Longrightarrow> leaving_ok (f a)) \<Longrightarrow> leaving_ok (Option.bind m f)"
  by (cases m) (auto simp: leaving_ok_def)

lemma leaving_ok_ret [leaving, simp]: "leaving_ok (ret a s)"
  by (simp add: leaving_ok_def ret_def)

lemma leaving_ok_None [leaving, simp]: "leaving_ok None"
  by (simp add: leaving_ok_def)

lemma leaving_ok_Returns [leaving, simp]: "leaving_ok (Some (Returns a, s))"
  by (simp add: leaving_ok_def)

lemma leaving_ok_Leaves [simp]: "leaving_ok (Some (Leaves x, s)) = exit_ok x s"
  by (simp add: leaving_ok_def)

lemma leaving_ok_leave [leaving]: "exits_ok m \<Longrightarrow> leaving_ok (leave m)"
  by (auto simp: leaving_ok_def leave_def exits_ok_def split: option.splits)

lemma leaving_ok_andthen [leaving]:
  "leaving_ok m \<Longrightarrow> (\<And>a s. leaving_ok (f a s)) \<Longrightarrow> leaving_ok (andthen m f)"
  by (auto simp: andthen_def split: option.splits flow.splits)

lemma exits_ok_env_run [leaving]: "exits_ok (env_run e s)"
  by (auto simp: exits_ok_def exit_ok_def env_run_def env_pop_tf_def unlock_kernel_def Let_def
      split: option.splits if_splits bind_splits)

lemma exits_ok_sched_halt [leaving]: "exits_ok (sched_halt s)"
  by (auto simp: exits_ok_def exit_ok_def sched_halt_def unlock_kernel_def split: option.splits if_splits bind_splits)

lemma exits_ok_sched_yield [leaving]: "exits_ok (sched_yield s)"
  by (auto simp: sched_yield_def exits_ok_env_run exits_ok_sched_halt split: option.splits)

lemma leaving_ok_env_destroy [leaving]: "leaving_ok (env_destroy e s)"
proof -
  have "leaving_ok (do { (x, s2) \<leftarrow> sched_yield t; Some (Leaves x, s2) } :: unit kres)" for t
    using exits_ok_sched_yield [of t] by (auto simp: exits_ok_def leaving_ok_def split: option.splits bind_splits)
  then show ?thesis by (auto simp: env_destroy_def intro!: leaving)
qed

lemma leaving_ok_user_mem_assert [leaving]: "leaving_ok (user_mem_assert e va len perm s)"
  by (auto simp: user_mem_assert_def intro!: leaving)

text \<open>Every system call, and so every trap, leaves the kernel this way or returns.\<close>

lemma leaving_ok_sys:
  "leaving_ok (sys_cputs p len s)" "leaving_ok (sys_env_destroy envid s)" "leaving_ok (sys_yield s)"
  "leaving_ok (sys_exofork s)" "leaving_ok (sys_env_set_status envid status s)"
  "leaving_ok (sys_env_set_trapframe envid tf s)" "leaving_ok (sys_env_set_pgfault_upcall envid func s)"
  "leaving_ok (sys_page_alloc envid va perm s)" "leaving_ok (sys_page_map e1 va1 e2 va2 perm s)"
  "leaving_ok (sys_page_unmap envid va s)" "leaving_ok (sys_ipc_try_send envid v srcva perm s)"
  "leaving_ok (sys_ipc_recv dstva s)" "leaving_ok (sys_pkt_try_send buf n s)" "leaving_ok (sys_pkt_try_recv buf plen s)"
  "leaving_ok (sys_cgetc s)" "leaving_ok (sys_getenvid s)" "leaving_ok (sys_time_msec s)"
  unfolding sys_cputs_def sys_env_destroy_def sys_yield_def sys_exofork_def sys_env_set_status_def
    sys_env_set_trapframe_def sys_env_set_pgfault_upcall_def sys_page_alloc_def sys_page_map_def sys_page_unmap_def
    sys_ipc_try_send_def sys_ipc_recv_def sys_pkt_try_send_def sys_pkt_try_recv_def sys_cgetc_def sys_getenvid_def
    sys_time_msec_def Let_def
  by (auto intro!: leaving split: option.split)

lemma leaving_ok_if: "leaving_ok m \<Longrightarrow> leaving_ok m' \<Longrightarrow> leaving_ok (if b then m else m')"
  by simp

lemma leaving_ok_syscall [leaving]: "leaving_ok (syscall n a1 a2 a3 a4 a5 s)"
  unfolding syscall_def by (intro leaving_ok_if leaving_ok_andthen leaving_ok_ret leaving_ok_sys)

lemma leaving_ok_mon_continue [leaving]: "leaving_ok (mon_continue tf s)"
  unfolding mon_continue_def by (auto intro!: leaving)

lemma leaving_ok_mon_singlestep [leaving]: "leaving_ok (mon_singlestep tf s)"
  unfolding mon_singlestep_def by (auto intro!: leaving simp: Let_def split: prod.split)

lemma leaving_ok_runcmd [leaving]: "leaving_ok (runcmd buf tf s)"
proof -
  note rules = leaving_ok_if leaving_ok_andthen leaving_ok_bind leaving_ok_mon_continue leaving_ok_mon_singlestep
    leaving_ok_ret
  show ?thesis
  proof (cases "parse_args [] buf")
    case None
    then show ?thesis unfolding runcmd_def split_def by (simp only: option.case) (intro rules)
  next
    case (Some argv)
    then show ?thesis unfolding runcmd_def split_def
      by (cases argv) (simp only: option.case list.case, intro rules)+
  qed
qed

lemma leaving_ok_monitor_loop [leaving]: "leaving_ok (monitor_loop n tf s)"
  by (induction n arbitrary: tf s) (auto intro!: leaving simp: exit_ok_def Let_def split: line.split)

lemma leaving_ok_monitor [leaving]: "leaving_ok (monitor tf s)"
  unfolding monitor_def by (intro leaving_ok_bind leaving_ok_monitor_loop)

lemma leaving_ok_fault_destroy [leaving]: "leaving_ok (fault_destroy c va tf s)"
  unfolding fault_destroy_def by (auto intro!: leaving)

lemma leaving_ok_page_fault_handler [leaving]: "leaving_ok (page_fault_handler tf s)"
  unfolding page_fault_handler_def Let_def by (auto intro!: leaving)

lemma leaving_ok_trap_dispatch [leaving]: "leaving_ok (trap_dispatch tf s)"
  unfolding trap_dispatch_def Let_def by (auto intro!: leaving)

lemma exits_ok_resume: "exits_ok (case curenv s of
    Some c \<Rightarrow> if env_status (envs s c) = ENV_RUNNING then env_run c s else sched_yield s
  | None \<Rightarrow> sched_yield s)"
  by (simp add: exits_ok_env_run exits_ok_sched_yield split: option.split)

lemma exits_ok_trap_on [leaving]: "exits_ok (trap_on tf s)"
  using leaving_ok_trap_dispatch [of tf "s\<lparr>last_tf := tf_addr tf s\<rparr>"] exits_ok_resume
  unfolding trap_on_def by (auto intro!: exits_ok_bind split: flow.split)

lemma exits_ok_trap: "\<not> panicstr s \<Longrightarrow> exits_ok (trap a f s)"
  unfolding trap_def by (simp add: exits_ok_bind exits_ok_sched_yield exits_ok_trap_on)

section \<open>Properties\<close>

text \<open>
  (C23) In a kernel that has not panicked before, take any trap; if it is a system call, it is not
  \<^verbatim>\<open>sys_pkt_try_recv\<close> and a packet it sends fits its buffer (\<^const>\<open>pkt_args_ok\<close>; otherwise
  the C code may overwrite any kernel data), and its arguments are arbitrary.  When the kernel
  then gives the processor away, it is to the current environment, marked running, in its own
  address space, or to the halted state without an environment; and the kernel lock is free.
  A trap that panics or stays in the monitor does not give the processor away.
\<close>

theorem trap_leaves_kernel_consistent:
  assumes "trap a f s = Some (x, s')" and "\<not> panicstr s"
    and "tf_trapno f = T_SYSCALL \<Longrightarrow> pkt_args_ok (reg_eax (tf_regs f)) (reg_ecx (tf_regs f)) s"
  shows "exit_ok x s'"
  using exits_ok_trap [OF assms(2), of a f] assms(1) by (simp add: exits_ok_def)

text \<open>
  (C24) The table \<^verbatim>\<open>trap_init\<close> builds leads each vector to the entry point that pushes this vector's number,
  through an interrupt gate of the kernel's code segment, so that interrupts are off in the
  kernel; user code can raise only the breakpoint and the system-call vector.
\<close>

theorem trap_init_gates:
  assumes "(v, h, dpl) \<in> set gates"
  shows "gate_offset (trap_init addr idt v) = addr h \<and> fst (the (map_of handlers h)) = v \<and>
     gd_type (trap_init addr idt v) = STS_IG32 \<and> gd_sel (trap_init addr idt v) = GD_KT \<and>
     gd_p (trap_init addr idt v) \<and>
     (gd_dpl (trap_init addr idt v) = 3 \<longleftrightarrow> v = T_BRKPT \<or> v = T_SYSCALL)"
proof -
  have "distinct (map fst gates)" by (simp add: gates_def jos_consts)
  then have g: "trap_init addr idt v = SETGATE False GD_KT (addr h) dpl"
    unfolding trap_init_def using assms by (rule fold_gates)
  have "\<forall>(v, h, dpl) \<in> set gates. fst (the (map_of handlers h)) = v \<and> (dpl = 3 \<longleftrightarrow> v = T_BRKPT \<or> v = T_SYSCALL)"
    by (simp add: gates_def handlers_def jos_consts)
  then have "fst (the (map_of handlers h)) = v" "dpl = 3 \<longleftrightarrow> v = T_BRKPT \<or> v = T_SYSCALL" using assms by auto
  then show ?thesis unfolding g gate_offset_SETGATE by (simp add: SETGATE_def)
qed

theorem trap_init_gates_witness:
  "gate_offset (trap_init (\<lambda>_. 0xF0104242) (\<lambda>_. SETGATE True 0 0 0) T_SYSCALL) = 0xF0104242 \<and>
     gd_dpl (trap_init (\<lambda>_. 0xF0104242) (\<lambda>_. SETGATE True 0 0 0) T_SYSCALL) = 3"
  using trap_init_gates [of T_SYSCALL "''syscall_handler''" 3] by (simp add: gates_def)

text \<open>The small machine with environment 0 running on the page directory in frame 1.\<close>

definition demo3 :: kstate where
  "demo3 = demo\<lparr>envs := (envs demo)(0 := demo_env\<lparr>env_id := 0x1000, env_status := ENV_RUNNING,
     env_pgdir := Some 1\<rparr>), curenv := Some 0, klock := False\<rparr>"

lemma demo3_sel [simp]:
  "curenv demo3 = Some 0" "klock demo3 = False" "panicstr demo3 = False" "eflags demo3 = 0" "cpu_status demo3 = 0"
  "envs demo3 = (\<lambda>_. demo_env)(0 := demo_env\<lparr>env_id := 0x1000, env_status := ENV_RUNNING, env_pgdir := Some 1\<rparr>)"
  by (simp_all add: demo3_def demo_def)

text \<open>The trap frame of the system call \<^verbatim>\<open>sys_getenvid\<close>.\<close>

definition getenvid_tf :: Trapframe where
  "getenvid_tf = fresh_tf\<lparr>tf_trapno := T_SYSCALL, tf_regs := zero_regs\<lparr>reg_eax := SYS_getenvid\<rparr>\<rparr>"

lemma demo3_getenvid: "\<exists>s'. trap 0xEFFFFFBC getenvid_tf demo3 = Some (RunEnv 0, s')"
  by (simp add: trap_def trap_on_def trap_dispatch_def tf_get_def tf_set_def syscall_def sys_getenvid_def ret_def andthen_def
      env_run_def env_pop_tf_def lock_kernel_def unlock_kernel_def getenvid_tf_def fresh_tf_def zero_tf_def zero_regs_def
      Let_def jos_consts)

theorem trap_leaves_kernel_consistent_witness:
  "\<exists>s'. trap 0xEFFFFFBC getenvid_tf demo3 = Some (RunEnv 0, s') \<and> exit_ok (RunEnv 0) s'"
proof -
  obtain s' where s': "trap 0xEFFFFFBC getenvid_tf demo3 = Some (RunEnv 0, s')" using demo3_getenvid by blast
  have "pkt_args_ok (reg_eax (tf_regs getenvid_tf)) (reg_ecx (tf_regs getenvid_tf)) demo3"
    by (simp add: pkt_args_ok_def getenvid_tf_def jos_consts)
  with trap_leaves_kernel_consistent [OF s'] s' show ?thesis by simp
qed

end
