(* ===== verification/Kernel_Inv.thy ===== *)
theory Kernel_Inv
  imports Env_Alloc Sched Trap
begin

text \<open>
  The invariant of the kernel as a whole, \<open>kernel_inv\<close>: the free list of frames, the page tables of
  all environments, the reference counts, the free list of environments and the current
  environment agree with each other.  Every system call that works on memory, environments or
  messages keeps it.
\<close>

section \<open>Contents of frames that hold no tables\<close>

lemma tables_frame:
  assumes t: "tables_ok s D ps" and m: "\<forall>f \<in> D \<union> tab s ` slots s D. pmem s' f = pmem s f"
  shows "slots s' D = slots s D" and "kslots s' D = kslots s D"
    and "tab s' ` slots s' D = tab s ` slots s D" and "tab s' ` kslots s' D = tab s ` kslots s D"
    and "inj_on (tab s') (slots s' D)" and "leaves s' D p = leaves s D p"
    and "d \<in> D \<Longrightarrow> vmap s' d = vmap s d"
proof -
  show sl: "slots s' D = slots s D" and ksl: "kslots s' D = kslots s D"
    using m by (auto simp: slots_def kslots_def)
  have tb: "tab s' x = tab s x" if "fst x \<in> D" for x using that m by (cases x) (auto simp: tab_def)
  have inD: "fst x \<in> D" if "x \<in> slots s D \<union> kslots s D" for x using that by (auto simp: slots_def kslots_def)
  show "tab s' ` slots s' D = tab s ` slots s D" "tab s' ` kslots s' D = tab s ` kslots s D"
    unfolding sl ksl using tb inD by (auto intro!: image_cong)
  show "inj_on (tab s') (slots s' D)" using t tb inD unfolding sl tables_ok_def inj_on_def by auto
  show "leaves s' D p = leaves s D p" using tb m by (auto simp: leaves_def sl slots_def)
  assume d: "d \<in> D"
  have "pmem s' (tab s (d, n div 1024)) = pmem s (tab s (d, n div 1024))"
    if "n < user_pdx * 1024" "pres (pmem s d (n div 1024))" for n
    using that d m by (auto simp: slots_def less_mult_imp_div_less)
  then show "vmap s' d = vmap s d"
    using m tb [of "(d, i)" for i] d by (auto simp: vmap_def fun_eq_iff Let_def)
qed

lemma vm_ok_frame:
  assumes ok: "vm_ok s D ps" and m: "\<forall>f \<in> D \<union> tab s ` slots s D. pmem s' f = pmem s f"
    and r: "\<forall>p. leaves s D p \<noteq> {} \<longrightarrow> pp_ref (pages s' p) = pp_ref (pages s p)"
    and n: "npages s' = npages s" and ph: "phys_ok s' ps'" and ps: "set ps' \<inter> (D \<union> tab s ` slots s D \<union> tab s ` kslots s D) = {}"
  shows "vm_ok s' D ps'"
proof -
  have t: "tables_ok s D ps" using ok by (simp add: vm_ok_def)
  note k = tables_frame [OF t m]
  have "D \<subseteq> {..<npages s} - set ps'" "tab s ` slots s D \<subseteq> {..<npages s} - set ps' - D"
    "tab s ` kslots s D \<subseteq> {..<npages s} - set ps' - D - tab s ` slots s D"
    using t ps unfolding tables_ok_def by auto
  then have "tables_ok s' D ps'" using t k(5) unfolding tables_ok_def k(3,4) n by simp
  moreover have "leaves_ok s' D" using ok unfolding vm_ok_def leaves_ok_def k(3,4,6) n by blast
  moreover have "refs_ok s' D"
    unfolding refs_ok_def k(6)
  proof
    fix p
    show "card (leaves s D p) \<le> unat (pp_ref (pages s' p))"
      using ok r by (cases "leaves s D p = {}") (auto simp: vm_ok_def refs_ok_def)
  qed
  ultimately show ?thesis using ph by (simp add: vm_ok_def)
qed

lemma vm_ok_allocated:
  assumes ok: "vm_ok s D (p # ps)"
  defines "s' \<equiv> memset_page p 0 (popped p ps s)"
  shows "vm_ok s' D ps" and "d \<in> D \<Longrightarrow> vmap s' d = vmap s d" and "mappable s' D ps p"
    and "uframes s' D ps \<subseteq> uframes s D (p # ps)" and "f \<noteq> p \<Longrightarrow> pmem s' f = pmem s f"
    and "owned_once s D \<Longrightarrow> owned_once s' D"
proof -
  have t: "tables_ok s D (p # ps)" and ph: "phys_ok s (p # ps)" using ok by (auto simp: vm_ok_def)
  have p: "p < npages s" "p \<notin> D \<union> tab s ` slots s D \<union> tab s ` kslots s D" "p \<notin> set ps" "pp_ref (pages s p) = 0"
    using t ph by (auto simp: tables_ok_def phys_ok_def free_list_def)
  show m: "f \<noteq> p \<Longrightarrow> pmem s' f = pmem s f" for f by (simp add: s'_def memset_page_def popped_def)
  have m': "\<forall>f \<in> D \<union> tab s ` slots s D. pmem s' f = pmem s f"
  proof
    fix f assume "f \<in> D \<union> tab s ` slots s D"
    then show "pmem s' f = pmem s f" by (intro m) (use p(2) in auto)
  qed
  note k = tables_frame [OF t m']
  have n: "npages s' = npages s" and r: "pp_ref (pages s' q) = pp_ref (pages s q)" for q
    by (simp_all add: s'_def memset_page_def popped_def)
  have "set ps \<inter> (D \<union> tab s ` slots s D \<union> tab s ` kslots s D) = {}" using t unfolding tables_ok_def by auto
  with phys_ok_popped [OF ph] show "vm_ok s' D ps"
    by (intro vm_ok_frame [OF ok m']) (simp_all add: n r, simp add: s'_def phys_ok_frame)
  show "d \<in> D \<Longrightarrow> vmap s' d = vmap s d" by (rule k(7))
  show "mappable s' D ps p" unfolding mappable_def k(3,4) n r using p by simp
  show "uframes s' D ps \<subseteq> uframes s D (p # ps)" unfolding uframes_def k(3,6) by auto
  show "owned_once s D \<Longrightarrow> owned_once s' D" unfolding owned_once_def k(3) r .
qed

section \<open>The invariant\<close>

text \<open>The address spaces: the page directories of the environments.\<close>

definition spaces :: "kstate \<Rightarrow> nat set" where
  "spaces s = {d. \<exists>e < NENV. env_pgdir (envs s e) = Some d}"

text \<open>The boot page directory and its tables, which every address space shares.\<close>

definition kframes :: "kstate \<Rightarrow> nat set" where
  "kframes s = insert (kern_pgdir s) (tab s ` kslots s {kern_pgdir s})"

definition kframes_ok :: "kstate \<Rightarrow> nat list \<Rightarrow> bool" where
  "kframes_ok s ps \<longleftrightarrow> (\<forall>i < user_pdx. \<not> pres (pmem s (kern_pgdir s) i)) \<and>
     kframes s \<subseteq> {..<npages s} - uframes s (spaces s) ps"

definition envs_ok :: "kstate \<Rightarrow> nat list \<Rightarrow> bool" where
  "envs_ok s es \<longleftrightarrow> env_list s es \<and>
     (\<forall>e < NENV. e \<in> set es \<longleftrightarrow> env_pgdir (envs s e) = None) \<and>
     (\<forall>e \<in> set es. env_status (envs s e) = ENV_FREE) \<and>
     (\<forall>e e' d. e < NENV \<longrightarrow> e' < NENV \<longrightarrow> env_pgdir (envs s e) = Some d \<longrightarrow> env_pgdir (envs s e') = Some d \<longrightarrow> e = e')"

definition kernel_ok :: "kstate \<Rightarrow> nat list \<Rightarrow> nat list \<Rightarrow> bool" where
  "kernel_ok s ps es \<longleftrightarrow> vm_ok s (spaces s) ps \<and> owned_once s (spaces s) \<and> kframes_ok s ps \<and> envs_ok s es"

text \<open>
  The current environment is alive and its address space is loaded; environments wait for pages
  at user addresses only.
\<close>

definition cur_ok :: "kstate \<Rightarrow> bool" where
  "cur_ok s \<longleftrightarrow> (\<forall>c. curenv s = Some c \<longrightarrow> c < NENV \<and> env_pgdir (envs s c) = Some (cr3 s)) \<and>
     (\<forall>e. env_ipc_dstva (envs s e) < UTOP)"

definition kernel_inv :: "kstate \<Rightarrow> bool" where
  "kernel_inv s \<longleftrightarrow> cur_ok s \<and> (\<exists>ps es. kernel_ok s ps es)"

lemma kernel_okD:
  assumes "kernel_ok s ps es"
  shows "vm_ok s (spaces s) ps" "owned_once s (spaces s)" "kframes_ok s ps" "envs_ok s es" "env_list s es" "phys_ok s ps"
  using assms by (auto simp: kernel_ok_def envs_ok_def vm_ok_def)

lemma space_mem: "e < NENV \<Longrightarrow> env_pgdir (envs s e) = Some d \<Longrightarrow> d \<in> spaces s"
  by (auto simp: spaces_def)

lemma spaces_cong: "(\<And>e. env_pgdir (envs s' e) = env_pgdir (envs s e)) \<Longrightarrow> spaces s' = spaces s"
  by (simp add: spaces_def)

lemma kframes_cong:
  assumes "kern_pgdir s' = kern_pgdir s" and "pmem s' (kern_pgdir s) = pmem s (kern_pgdir s)"
  shows "kframes s' = kframes s"
proof -
  let ?k = "kern_pgdir s"
  have "kslots s' {?k} = kslots s {?k}" using assms(2) by (auto simp: kslots_def)
  moreover have "tab s' ` kslots s {?k} = tab s ` kslots s {?k}"
    using assms(2) by (intro image_cong) (auto simp: kslots_def tab_def)
  ultimately show ?thesis by (simp add: kframes_def assms(1))
qed

text \<open>Only the directories, links and the status of free environments matter to the invariant.\<close>

lemma envs_ok_cong:
  assumes "envs_ok s es" and "env_free_list s' = env_free_list s"
    and "\<And>e. env_pgdir (envs s' e) = env_pgdir (envs s e) \<and> env_link (envs s' e) = env_link (envs s e)"
    and "\<And>e. e < NENV \<Longrightarrow> env_pgdir (envs s e) = None \<Longrightarrow> env_status (envs s' e) = env_status (envs s e)"
  shows "envs_ok s' es"
proof -
  have "chain env_link (envs s') p xs = chain env_link (envs s) p xs" for p xs
    using assms(3) by (intro chain_frame) simp
  moreover have "env_status (envs s' e) = env_status (envs s e)" if "e \<in> set es" for e
    using that assms(1,4) by (auto simp: envs_ok_def env_list_def)
  ultimately show ?thesis using assms(1-3) by (simp add: envs_ok_def env_list_def)
qed

lemma kernel_ok_cong:
  assumes "kernel_ok s ps es" and "pmem s' = pmem s" "pages s' = pages s" "page_free_list s' = page_free_list s"
    "npages s' = npages s" "kern_pgdir s' = kern_pgdir s" "env_free_list s' = env_free_list s"
    and e: "\<And>e. env_pgdir (envs s' e) = env_pgdir (envs s e) \<and> env_link (envs s' e) = env_link (envs s e)"
    and f: "\<And>e. e < NENV \<Longrightarrow> env_pgdir (envs s e) = None \<Longrightarrow> env_status (envs s' e) = env_status (envs s e)"
  shows "kernel_ok s' ps es"
proof -
  have sp: "spaces s' = spaces s" using e by (intro spaces_cong) simp
  have "vm_ok s' (spaces s) ps" using assms vm_ok_cong [of s' s] by (simp add: kernel_ok_def)
  moreover have "owned_once s' (spaces s)" using assms(1-3) slots_pmem [of s' s] by (simp add: kernel_ok_def owned_once_def)
  moreover have "kframes_ok s' ps"
    using assms(1,2,5,6) kframes_cong [of s' s] uframes_cong [of s' s] by (simp add: kernel_ok_def kframes_ok_def sp)
  moreover have "envs_ok s' es" using assms by (intro envs_ok_cong [OF _ assms(7) e f]) (auto simp: kernel_ok_def)
  ultimately show ?thesis by (simp add: kernel_ok_def sp)
qed

text \<open>Steps of the mapping operations keep the invariant, unless they map a frame of the kernel.\<close>

lemma kernel_ok_frames:
  assumes ok: "kernel_ok s ps es" and vm: "vm_ok s' (spaces s) ps'" and own: "owned_once s' (spaces s)"
    and nm: "npages s' = npages s" "kern_pgdir s' = kern_pgdir s" "envs s' = envs s" "env_free_list s' = env_free_list s"
    and u: "uframes s' (spaces s) ps' \<subseteq> uframes s (spaces s) ps \<union> X" and X: "X \<inter> kframes s = {}"
    and m: "\<forall>f. f \<notin> uframes s (spaces s) ps \<union> X \<longrightarrow> pmem s' f = pmem s f"
  shows "kernel_ok s' ps' es" and "kframes s' = kframes s"
proof -
  have sp: "spaces s' = spaces s" using nm by (intro spaces_cong) simp
  have K: "kframes s \<subseteq> {..<npages s} - uframes s (spaces s) ps" using ok by (simp add: kernel_ok_def kframes_ok_def)
  then have "kern_pgdir s \<notin> uframes s (spaces s) ps \<union> X" using X by (auto simp: kframes_def)
  then have kp: "pmem s' (kern_pgdir s) = pmem s (kern_pgdir s)" using m by blast
  show kf: "kframes s' = kframes s" using kframes_cong nm kp by blast
  have "kframes_ok s' ps'"
  proof -
    have "kframes s \<subseteq> {..<npages s'} - uframes s' (spaces s) ps'"
      using K subsetD [OF u] X by (auto simp: nm(1))
    then show ?thesis using ok nm kp unfolding kframes_ok_def kernel_ok_def kf sp by simp
  qed
  moreover have "envs_ok s' es" by (rule envs_ok_cong [OF kernel_okD(4) [OF ok] nm(4)]) (simp_all add: nm(3))
  ultimately show "kernel_ok s' ps' es" using vm own by (simp add: kernel_ok_def sp)
qed

lemma kernel_ok_vsteps:
  assumes ok: "kernel_ok s ps es" and v: "vsteps (spaces s) pp s ps s' ps'" and pp: "pp \<notin> kframes s"
  shows "kernel_ok s' ps' es"
proof (rule kernel_ok_frames(1) [OF ok])
  note vm = kernel_okD(1) [OF ok]
  note nm = non_memD [OF vsteps_non_mem [OF v]]
  show "vm_ok s' (spaces s) ps'" by (rule vsteps_vm_ok [OF v vm])
  show "owned_once s' (spaces s)" by (rule vsteps_uframes(3) [OF v vm kernel_okD(2) [OF ok]])
  show "uframes s' (spaces s) ps' \<subseteq> uframes s (spaces s) ps \<union> {pp}" by (rule vsteps_uframes(1) [OF v vm])
  show "\<forall>f. f \<notin> uframes s (spaces s) ps \<union> {pp} \<longrightarrow> pmem s' f = pmem s f"
    using vsteps_uframes(2) [OF v vm] by blast
qed (use pp non_memD [OF vsteps_non_mem [OF v]] in auto)

lemma kernel_ok_allocated:
  assumes ok: "kernel_ok s (p # ps) es"
  defines "s' \<equiv> memset_page p 0 (popped p ps s)"
  shows "kernel_ok s' ps es" and "p \<notin> kframes s'" and "spaces s' = spaces s"
proof -
  note a = vm_ok_allocated [OF kernel_okD(1) [OF ok]]
  have nm: "npages s' = npages s" "kern_pgdir s' = kern_pgdir s" "envs s' = envs s" "env_free_list s' = env_free_list s"
    by (simp_all add: s'_def memset_page_def popped_def)
  have p: "p \<in> uframes s (spaces s) (p # ps)" by (simp add: uframes_def)
  have m: "\<forall>f. f \<notin> uframes s (spaces s) (p # ps) \<union> {} \<longrightarrow> pmem s' f = pmem s f"
  proof (intro allI impI)
    fix f assume "f \<notin> uframes s (spaces s) (p # ps) \<union> {}"
    then show "pmem s' f = pmem s f" unfolding s'_def by (intro a(5)) (use p in auto)
  qed
  have u: "uframes s' (spaces s) ps \<subseteq> uframes s (spaces s) (p # ps) \<union> {}" using a(4) unfolding s'_def by blast
  note k = kernel_ok_frames [OF ok a(1) [folded s'_def] a(6) [folded s'_def, OF kernel_okD(2) [OF ok]] nm u _ m]
  show "kernel_ok s' ps es" by (rule k(1)) simp_all
  have "kframes s' = kframes s" by (rule k(2)) simp_all
  then show "p \<notin> kframes s'" using kernel_okD(3) [OF ok] p by (auto simp: kframes_ok_def)
  show "spaces s' = spaces s" using nm by (intro spaces_cong) simp
qed

section \<open>A small machine that satisfies the invariant\<close>

text \<open>Environment 0 runs on the page directory in frame 1, all others are free; frames 2 and 3 are free.\<close>

definition demo4 :: kstate where
  "demo4 = demo\<lparr>envs := (\<lambda>e. demo_env\<lparr>env_link := (if e + 1 < NENV then Some (e + 1) else None)\<rparr>)
       (0 := demo_env\<lparr>env_id := 0x1000, env_status := ENV_RUNNING, env_pgdir := Some 1\<rparr>),
     env_free_list := Some 1, curenv := Some 0, kern_pgdir := 4\<rparr>"

lemma demo4_sel [simp]:
  "curenv demo4 = Some 0" "kern_pgdir demo4 = 4" "pmem demo4 = (\<lambda>_ _. 0)" "pages demo4 = pages demo" "npages demo4 = 16"
  "page_free_list demo4 = Some 2" "env_free_list demo4 = Some 1" "cr3 demo4 = 1" "klock demo4 = True"
  "env_pgdir (envs demo4 e) = (if e = 0 then Some 1 else None)"
  "env_status (envs demo4 e) = (if e = 0 then ENV_RUNNING else ENV_FREE)"
  "env_id (envs demo4 0) = 0x1000" "env_ipc_dstva (envs demo4 e) = 0"
  "env_link (envs demo4 e) = (if e \<noteq> 0 \<and> e + 1 < NENV then Some (e + 1) else None)"
  by (simp_all add: demo4_def demo_env_def) (simp_all add: demo_def)

lemma chain_upt:
  assumes "\<forall>e. n \<le> e \<and> e < N \<longrightarrow> link (f e) = (if e + 1 < N then Some (e + 1) else None)" and "n \<le> N"
  shows "chain link f (if n < N then Some n else None) [n..<N]"
  using assms
proof (induction "N - n" arbitrary: n)
  case 0
  then have "n = N" by linarith
  then show ?case by simp
next
  case (Suc k)
  then have n: "n < N" "k = N - Suc n" by linarith+
  have "chain link f (if Suc n < N then Some (Suc n) else None) [Suc n..<N]"
    using Suc.prems n by (intro Suc.hyps(1)) auto
  then show ?case using n(1) Suc.prems(1) unfolding upt_conv_Cons [OF n(1)] by (simp split: if_splits)
qed

lemma demo4_chain: "chain env_link (envs demo4) (Some 1) [1..<NENV]"
proof -
  have "1 < NENV" by (simp add: NENV_eq)
  then show ?thesis using chain_upt [of 1 NENV env_link "envs demo4"] by simp
qed

lemma demo4_spaces: "spaces demo4 = {1}"
  by (auto simp: spaces_def NENV_eq)

lemma demo4_ok: "kernel_ok demo4 [2, 3] [1..<NENV]" "cur_ok demo4"
proof -
  have sl: "slots demo4 D = {}" "kslots demo4 D = {}" "leaves demo4 D p = {}" for D p
    by (simp_all add: slots_def kslots_def leaves_def)
  have "vm_ok demo4 {1} [2, 3]"
    by (auto simp: vm_ok_def phys_ok_def free_list_def tables_ok_def leaves_ok_def refs_ok_def sl)
  moreover have "owned_once demo4 {1}" by (simp add: owned_once_def sl)
  moreover have "kframes_ok demo4 [2, 3]"
    by (simp add: kframes_ok_def kframes_def uframes_def sl demo4_spaces)
  moreover have "envs_ok demo4 [1..<NENV]"
    using demo4_chain by (auto simp: envs_ok_def env_list_def)
  ultimately show "kernel_ok demo4 [2, 3] [1..<NENV]" by (simp add: kernel_ok_def demo4_spaces)
  show "cur_ok demo4" by (simp add: cur_ok_def NENV_eq)
qed

lemma demo4_inv: "kernel_inv demo4"
  using demo4_ok by (auto simp: kernel_inv_def)

end
