(* ===== verification/Sys_Mem.thy ===== *)
theory Sys_Mem
  imports Kernel_Inv
begin

text \<open>
  The system calls on address spaces, \<^verbatim>\<open>sys_page_alloc\<close>, \<^verbatim>\<open>sys_page_map\<close> and \<^verbatim>\<open>sys_page_unmap\<close>: they
  never panic, keep the invariant of the kernel, and act on the maps of the address spaces as
  their specification says.
\<close>

section \<open>Arguments\<close>

lemma good_va: "\<not> bad_va va \<Longrightarrow> va < UTOP"
  by (simp add: bad_va_def not_le)

lemma good_perm: "\<not> bad_perm perm \<Longrightarrow> flags_only perm"
proof -
  assume "\<not> bad_perm perm"
  then have "perm AND NOT PTE_SYSCALL = 0" by (simp add: bad_perm_def)
  then have "perm AND PTE_SYSCALL = perm"
    by (metis and.right_neutral bit.conj_cancel_right bit.conj_disj_distrib bit.disj_cancel_right or.right_neutral)
  then have "drop_bit 12 perm = drop_bit 12 perm AND drop_bit 12 PTE_SYSCALL" by (metis drop_bit_and)
  moreover have "drop_bit 12 PTE_SYSCALL = 0" by (simp add: jos_consts)
  ultimately show ?thesis by (simp add: flags_only_def)
qed

lemma ENVX_less: "ENVX i < NENV"
  using take_bit_nat_less_exp [of 10 "unat i"] by (simp add: ENVX_def and_3FF NENV_eq unsigned_take_bit_eq)

text \<open>\<^verbatim>\<open>envid2env\<close> finds a live environment or refuses.\<close>

lemma envid2env_live:
  assumes ok: "kernel_ok s ps es" and cur: "cur_ok s" and c: "curenv s = Some c"
  obtains (bad) "envid2env envid chk s = Some (- E_BAD_ENV, None)"
  | (found) e d where "envid2env envid chk s = Some (0, Some e)" and "e < NENV" and "env_pgdir (envs s e) = Some d"
proof -
  have live: "\<exists>d. env_pgdir (envs s e) = Some d" if "e < NENV" "env_status (envs s e) \<noteq> ENV_FREE" for e
    using that kernel_okD(4) [OF ok] by (auto simp: envs_ok_def)
  have cd: "c < NENV" "\<exists>d. env_pgdir (envs s c) = Some d" using cur c by (auto simp: cur_ok_def)
  show thesis
  proof (cases "envid = 0")
    case True
    then have "envid2env envid chk s = Some (0, Some c)" using c by (simp add: envid2env_def)
    then show thesis using cd found by blast
  next
    case False
    let ?e = "ENVX envid"
    show thesis
    proof (cases "env_status (envs s ?e) = ENV_FREE \<or> env_id (envs s ?e) \<noteq> envid \<or>
        chk \<and> Some ?e \<noteq> curenv s \<and> env_parent_id (envs s ?e) \<noteq> env_id (envs s c)")
      case True
      with False c have "envid2env envid chk s = Some (- E_BAD_ENV, None)" by (auto simp: envid2env_def Let_def)
      then show thesis by (rule bad)
    next
      case ne: False
      with False c have "envid2env envid chk s = Some (0, Some ?e)" by (auto simp: envid2env_def Let_def)
      moreover obtain d where "env_pgdir (envs s ?e) = Some d" using live [OF ENVX_less, of envid] ne by blast
      ultimately show thesis using ENVX_less found by blast
    qed
  qed
qed

section \<open>Mapping and unmapping in the kernel\<close>

lemma cur_ok_non_mem: "non_mem s' = non_mem s \<Longrightarrow> cur_ok s \<Longrightarrow> cur_ok s'"
  by (simp add: non_mem_def cur_ok_def)

lemma spaces_non_mem: "non_mem s' = non_mem s \<Longrightarrow> spaces s' = spaces s"
  by (intro spaces_cong) (simp add: non_mem_def)

text \<open>The change of all address spaces when one page of one of them changes.\<close>

definition remapped :: "kstate \<Rightarrow> nat \<Rightarrow> nat \<Rightarrow> (nat \<times> u32) option \<Rightarrow> kstate \<Rightarrow> bool" where
  "remapped s d n x s' \<longleftrightarrow> spaces s' = spaces s \<and>
     (\<forall>d' \<in> spaces s. vmap s' d' = (if d' = d then (vmap s d)(n := x) else vmap s d'))"

definition same_maps :: "kstate \<Rightarrow> kstate \<Rightarrow> bool" where
  "same_maps s s' \<longleftrightarrow> spaces s' = spaces s \<and> (\<forall>d \<in> spaces s. vmap s' d = vmap s d)"

lemma same_maps_refl [simp]: "same_maps s s"
  by (simp add: same_maps_def)

lemma remapped_after_same: "same_maps s s1 \<Longrightarrow> d \<in> spaces s \<Longrightarrow> remapped s1 d n x s' \<Longrightarrow> remapped s d n x s'"
  by (auto simp: same_maps_def remapped_def)

lemma kernel_page_insert:
  assumes ok: "kernel_ok s ps es" and cur: "cur_ok s" and d: "d \<in> spaces s" and va: "va < UTOP"
    and pp: "mappable s (spaces s) ps pp" "pp \<notin> kframes s" and perm: "flags_only perm"
  obtains (inserted) s' ps' where "page_insert d pp va perm s = Some (0, s')" and "kernel_ok s' ps' es" and "cur_ok s'"
    and "remapped s d (vpn va) (Some (pp, perm OR PTE_P)) s'" and "non_mem s' = non_mem s" and "pmem s' pp = pmem s pp"
  | (no_memory) "page_insert d pp va perm s = Some (- E_NO_MEM, s)" and "ps = []"
proof -
  note vm = kernel_okD(1) [OF ok]
  show thesis
  proof (cases rule: page_insert_vsteps [OF vm d va pp(1) perm])
    case (1 s' ps')
    have "pp \<notin> spaces s \<union> tab s ` slots s (spaces s) \<union> set ps" using pp(1) by (auto simp: mappable_def)
    note kept = vsteps_page_kept [OF 1(2) vm this]
    note nm = vsteps_non_mem [OF 1(2)]
    have "remapped s d (vpn va) (Some (pp, perm OR PTE_P)) s'"
      using page_insert_vmap [OF vm d va pp(1) perm] 1(1) spaces_non_mem [OF nm]
      by (auto simp: remapped_def E_NO_MEM_def)
    then show thesis
      using inserted 1(1) kernel_ok_vsteps [OF ok 1(2) pp(2)] cur_ok_non_mem [OF nm cur] nm kept by blast
  qed (use no_memory in blast)
qed

lemma kernel_page_remove:
  assumes ok: "kernel_ok s ps es" and cur: "cur_ok s" and d: "d \<in> spaces s" and va: "va < UTOP"
  obtains s' ps' where "page_remove d va s = Some s'" and "kernel_ok s' ps' es" and "cur_ok s'"
    and "remapped s d (vpn va) None s'" and "non_mem s' = non_mem s"
proof -
  note vm = kernel_okD(1) [OF ok]
  from page_remove_vsteps [OF vm d va, of d] d obtain s' ps' where
    rm: "page_remove d va s = Some s'" and v: "vsteps (spaces s) d s ps s' ps'" by blast
  note nm = vsteps_non_mem [OF v]
  have "d \<notin> kframes s" using kernel_okD(3) [OF ok] d by (auto simp: kframes_ok_def uframes_def)
  note k = kernel_ok_vsteps [OF ok v this]
  have "remapped s d (vpn va) None s'"
    using page_remove_vmap [OF vm d va] rm spaces_non_mem [OF nm] by (auto simp: remapped_def)
  then show thesis using that rm k cur_ok_non_mem [OF nm cur] nm by blast
qed

text \<open>A fresh frame that is given back.\<close>

lemma kernel_ok_freed:
  assumes ok: "kernel_ok s [] es" and pp: "mappable s (spaces s) [] p" "p \<notin> kframes s" and r: "pp_ref (pages s p) = 0"
  shows "page_free p s = Some (pushed p s)" and "kernel_ok (pushed p s) [p] es" and "same_maps s (pushed p s)"
proof -
  note vm = kernel_okD(1) [OF ok] and ph = kernel_okD(6) [OF ok]
  let ?s' = "pushed p s" and ?D = "spaces s"
  show "page_free p s = Some ?s'" using page_free_eq [OF ph _ r] by simp
  have p: "p < npages s" "p \<notin> ?D \<union> tab s ` slots s ?D \<union> tab s ` kslots s ?D" using pp(1) by (auto simp: mappable_def)
  have m: "pmem ?s' = pmem s" by (simp add: pushed_def)
  have refs: "pp_ref (pages ?s' q) = pp_ref (pages s q)" for q by (simp add: pushed_def)
  have nm: "npages ?s' = npages s" "kern_pgdir ?s' = kern_pgdir s" "envs ?s' = envs s" "env_free_list ?s' = env_free_list s"
    by (simp_all add: pushed_def)
  have "phys_ok ?s' [p]" using phys_ok_pushed [OF ph _ r p(1)] by simp
  then have vm': "vm_ok ?s' ?D [p]" using p by (intro vm_ok_frame [OF vm]) (simp_all add: m refs nm)
  have own: "owned_once ?s' ?D"
    using kernel_okD(2) [OF ok] slots_pmem [OF m] by (simp add: owned_once_def refs)
  have u: "uframes ?s' ?D [p] \<subseteq> uframes s ?D [] \<union> {p}" unfolding uframes_cong [OF m] by (auto simp: uframes_def)
  show "kernel_ok ?s' [p] es"
    by (rule kernel_ok_frames(1) [OF ok vm' own nm u]) (use pp(2) in \<open>simp_all add: m\<close>)
  show "same_maps s ?s'" using vmap_pmem [OF m] spaces_cong [of ?s' s] nm by (simp add: same_maps_def)
qed

section \<open>The system calls\<close>

lemma kernel_invI: "kernel_ok s ps es \<Longrightarrow> cur_ok s \<Longrightarrow> kernel_inv s"
  by (auto simp: kernel_inv_def)

lemma allocated_parts [simp]:
  "envs (memset_page p w (popped p ps s)) = envs s" "curenv (memset_page p w (popped p ps s)) = curenv s"
  "cr3 (memset_page p w (popped p ps s)) = cr3 s"
  "pp_ref (pages (memset_page p w (popped p ps s)) q) = pp_ref (pages s q)"
  by (simp_all add: memset_page_def popped_def)

lemma envid2env_cong: "envs s' = envs s \<Longrightarrow> curenv s' = curenv s \<Longrightarrow> envid2env i chk s' = envid2env i chk s"
  unfolding envid2env_def by (simp only:)

definition mapped_fresh :: "u32 \<Rightarrow> u32 \<Rightarrow> u32 \<Rightarrow> kstate \<Rightarrow> kstate \<Rightarrow> bool" where
  "mapped_fresh envid va perm s s' \<longleftrightarrow>
     (\<exists>e d p. envid2env envid True s = Some (0, Some e) \<and> env_pgdir (envs s e) = Some d \<and>
        pp_ref (pages s p) = 0 \<and> leaves s (spaces s) p = {} \<and>
        remapped s d (vpn va) (Some (p, perm OR PTE_P)) s' \<and> (\<forall>i. pmem s' p i = 0))"

lemma sys_page_alloc_some:
  assumes ok: "kernel_ok s (p # ps) es" and cur: "cur_ok s" and c: "curenv s = Some c"
    and va: "\<not> bad_va va" and perm: "\<not> bad_perm perm"
  shows "\<exists>r s'. sys_page_alloc envid va perm s = Some (Returns r, s') \<and> kernel_inv s' \<and>
     (r = 0 \<and> mapped_fresh envid va perm s s' \<or> r \<in> {- E_INVAL, - E_NO_MEM, - E_BAD_ENV} \<and> same_maps s s')"
proof -
  let ?s1 = "memset_page p 0 (popped p ps s)"
  note vm = kernel_okD(1) [OF ok] and a = kernel_ok_allocated [OF ok]
  note b = vm_ok_allocated [OF vm]
  have al: "page_alloc 1 s = Some (Some p, ?s1)"
    using page_alloc_Cons [OF kernel_okD(6) [OF ok], of 1] by (simp add: jos_consts)
  have cur1: "cur_ok ?s1" using cur by (simp add: cur_ok_def)
  have same: "same_maps s ?s1" using a(3) b(2) by (simp add: same_maps_def)
  have ide: "envid2env envid True ?s1 = envid2env envid True s" by (rule envid2env_cong) simp_all
  have p: "pp_ref (pages s p) = 0" "leaves s (spaces s) p = {}"
    using vm leaf_not_free [OF vm, of p] by (auto simp: vm_ok_def phys_ok_def free_list_def)
  show ?thesis
  proof (cases rule: envid2env_live [OF ok cur c, of envid True])
    case 1
    then have "sys_page_alloc envid va perm s = Some (Returns (- E_BAD_ENV), ?s1)"
      using va perm al ide by (simp add: sys_page_alloc_def ret_def E_BAD_ENV_def)
    then show ?thesis using kernel_invI [OF a(1) cur1] same by auto
  next
    case (2 e d)
    then have d: "d \<in> spaces s" by (blast intro: space_mem)
    have m1: "mappable ?s1 (spaces ?s1) ps p" using b(3) a(3) by simp
    show ?thesis
    proof (cases rule: kernel_page_insert [OF a(1) cur1 _ good_va [OF va] m1 a(2) good_perm [OF perm], of d])
      case 1
      then show ?case using d a(3) by simp
    next
      case (2 s' ps')
      then have "sys_page_alloc envid va perm s = Some (Returns 0, s')"
        using va perm al ide \<open>envid2env envid True s = Some (0, Some e)\<close> \<open>env_pgdir (envs s e) = Some d\<close>
        by (simp add: sys_page_alloc_def ret_def)
      moreover have "mapped_fresh envid va perm s s'"
        unfolding mapped_fresh_def
        using p remapped_after_same [OF same d 2(4)] 2(6) \<open>envid2env envid True s = Some (0, Some e)\<close>
          \<open>env_pgdir (envs s e) = Some d\<close> by (intro exI [of _ e] exI [of _ d] exI [of _ p]) (simp add: memset_page_def)
      ultimately show ?thesis using kernel_invI [OF 2(2,3)] by blast
    next
      case 3
      note fr = kernel_ok_freed [OF a(1) [unfolded 3(2)] m1 [unfolded 3(2)] a(2) [unfolded 3(2)]]
      let ?s2 = "pushed p ?s1"
      have "sys_page_alloc envid va perm s = Some (Returns (- E_NO_MEM), ?s2)"
        using va perm al ide 3 fr(1) p \<open>envid2env envid True s = Some (0, Some e)\<close> \<open>env_pgdir (envs s e) = Some d\<close>
        by (simp add: sys_page_alloc_def ret_def E_NO_MEM_def)
      moreover have "cur_ok ?s2" using cur1 by (simp add: cur_ok_def pushed_def)
      moreover have "same_maps s ?s2" using same fr(3) p 3(2) by (auto simp: same_maps_def)
      ultimately show ?thesis using kernel_invI fr(2) p 3(2) by auto
    qed
  qed
qed

lemma sys_page_alloc_cases:
  assumes ok: "kernel_ok s ps es" and cur: "cur_ok s" and c: "curenv s = Some c"
  shows "\<exists>r s'. sys_page_alloc envid va perm s = Some (Returns r, s') \<and> kernel_inv s' \<and>
     (r = 0 \<and> mapped_fresh envid va perm s s' \<or> r \<in> {- E_INVAL, - E_NO_MEM, - E_BAD_ENV} \<and> same_maps s s')"
proof (cases "bad_va va \<or> bad_perm perm")
  case True
  then have "sys_page_alloc envid va perm s = Some (Returns (- E_INVAL), s)" by (auto simp: sys_page_alloc_def ret_def)
  then show ?thesis using kernel_invI [OF ok cur] by auto
next
  case False
  show ?thesis
  proof (cases ps)
    case Nil
    then have "page_alloc 1 s = Some (None, s)" using page_alloc_Nil kernel_okD(6) [OF ok] by blast
    then have "sys_page_alloc envid va perm s = Some (Returns (- E_NO_MEM), s)"
      using False by (simp add: sys_page_alloc_def ret_def)
    then show ?thesis using kernel_invI [OF ok cur] by auto
  next
    case (Cons p qs)
    then show ?thesis using sys_page_alloc_some [of s p qs es c va perm envid] ok cur c False by blast
  qed
qed

text \<open>No reference count is about to overflow its sixteen bits.\<close>

definition unsaturated :: "kstate \<Rightarrow> bool" where
  "unsaturated s \<longleftrightarrow> (\<forall>p. unat (pp_ref (pages s p)) < 65535)"

text \<open>A frame that some address space maps can be mapped again.\<close>

lemma mapped_mappable:
  assumes ok: "kernel_ok s ps es" and us: "unsaturated s" and d: "d \<in> spaces s" and v: "vmap s d n = Some (p, fl)"
  shows "mappable s (spaces s) ps p" and "p \<notin> kframes s"
proof -
  note vm = kernel_okD(1) [OF ok]
  have n: "n < user_pdx * 1024" using v by (auto simp: vmap_def Let_def split: if_splits)
  then have "(d, n div 1024, n mod 1024) \<in> leaves s (spaces s) p"
    using v d by (auto simp: vmap_def Let_def leaves_def slots_def less_mult_imp_div_less split: if_splits)
  then have l: "leaves s (spaces s) p \<noteq> {}" by blast
  then show "mappable s (spaces s) ps p"
    using vm leaf_not_free [OF vm l] us by (auto simp: mappable_def unsaturated_def vm_ok_def leaves_ok_def)
  show "p \<notin> kframes s" using kernel_okD(3) [OF ok] l by (auto simp: kframes_ok_def uframes_def)
qed

definition mapped_shared :: "u32 \<Rightarrow> u32 \<Rightarrow> u32 \<Rightarrow> u32 \<Rightarrow> u32 \<Rightarrow> kstate \<Rightarrow> kstate \<Rightarrow> bool" where
  "mapped_shared srcenvid srcva dstenvid dstva perm s s' \<longleftrightarrow>
     (\<exists>e1 d1 e2 d2 p fl. envid2env srcenvid True s = Some (0, Some e1) \<and> env_pgdir (envs s e1) = Some d1 \<and>
        envid2env dstenvid True s = Some (0, Some e2) \<and> env_pgdir (envs s e2) = Some d2 \<and>
        vmap s d1 (vpn srcva) = Some (p, fl) \<and> remapped s d2 (vpn dstva) (Some (p, perm OR PTE_P)) s')"

lemma sys_page_map_cases:
  assumes ok: "kernel_ok s ps es" and cur: "cur_ok s" and c: "curenv s = Some c" and us: "unsaturated s"
  shows "\<exists>r s'. sys_page_map srcenvid srcva dstenvid dstva perm s = Some (Returns r, s') \<and> kernel_inv s' \<and>
     (r = 0 \<and> mapped_shared srcenvid srcva dstenvid dstva perm s s' \<or>
      r \<in> {- E_INVAL, - E_NO_MEM, - E_BAD_ENV} \<and> s' = s)"
proof -
  note inv = kernel_invI [OF ok cur] and vm = kernel_okD(1) [OF ok]
  have fail: ?thesis if "sys_page_map srcenvid srcva dstenvid dstva perm s = Some (Returns r, s)"
    "r \<in> {- E_INVAL, - E_NO_MEM, - E_BAD_ENV}" for r using that inv by auto
  show ?thesis
  proof (cases "bad_va srcva \<or> bad_va dstva \<or> bad_perm perm")
    case True
    then show ?thesis by (intro fail [of "- E_INVAL"]) (auto simp: sys_page_map_def ret_def)
  next
    case args: False
    show ?thesis
    proof (cases rule: envid2env_live [OF ok cur c, of srcenvid True])
      case 1
      then show ?thesis using args by (intro fail [of "- E_BAD_ENV"]) (auto simp: sys_page_map_def ret_def E_BAD_ENV_def)
    next
      case src: (2 e1 d1)
      show ?thesis
      proof (cases rule: envid2env_live [OF ok cur c, of dstenvid True])
        case 1
        then show ?thesis using args src
          by (intro fail [of "- E_BAD_ENV"]) (auto simp: sys_page_map_def ret_def E_BAD_ENV_def)
      next
        case dst: (2 e2 d2)
        have d1: "d1 \<in> spaces s" and d2: "d2 \<in> spaces s" using src dst by (blast intro: space_mem)+
        have va: "srcva < UTOP" "dstva < UTOP" "flags_only perm" using args good_va good_perm by auto
        from page_lookup_vmap [OF vm d1 va(1)] obtain pte where
          lk: "page_lookup d1 srcva s = Some (map_option fst (vmap s d1 (vpn srcva)), pte)" by blast
        show ?thesis
        proof (cases "vmap s d1 (vpn srcva)")
          case None
          then show ?thesis using args src dst lk
            by (intro fail [of "- E_NO_MEM"]) (auto simp: sys_page_map_def ret_def)
        next
          case (Some x)
          obtain p fl where x: "x = (p, fl)" by (cases x)
          note m = mapped_mappable [OF ok us d1 Some [unfolded x]]
          show ?thesis
          proof (cases rule: kernel_page_insert [OF ok cur d2 va(2) m va(3)])
            case (1 s' ps')
            then have "sys_page_map srcenvid srcva dstenvid dstva perm s = Some (Returns 0, s')"
              using args src dst lk Some x by (simp add: sys_page_map_def ret_def)
            moreover have "mapped_shared srcenvid srcva dstenvid dstva perm s s'"
              unfolding mapped_shared_def using src dst Some x 1(4) by blast
            ultimately show ?thesis using kernel_invI [OF 1(2,3)] by blast
          next
            case 2
            then show ?thesis using args src dst lk Some x
              by (intro fail [of "- E_NO_MEM"]) (auto simp: sys_page_map_def ret_def E_NO_MEM_def)
          qed
        qed
      qed
    qed
  qed
qed

lemma sys_page_unmap_cases:
  assumes ok: "kernel_ok s ps es" and cur: "cur_ok s" and c: "curenv s = Some c"
  shows "\<exists>r s'. sys_page_unmap envid va s = Some (Returns r, s') \<and> kernel_inv s' \<and>
     (r = 0 \<and> (\<exists>e d. envid2env envid True s = Some (0, Some e) \<and> env_pgdir (envs s e) = Some d \<and> remapped s d (vpn va) None s') \<or>
      r \<in> {- E_INVAL, - E_BAD_ENV} \<and> s' = s)"
proof (cases "bad_va va")
  case True
  then show ?thesis using kernel_invI [OF ok cur] by (auto simp: sys_page_unmap_def ret_def)
next
  case False
  show ?thesis
  proof (cases rule: envid2env_live [OF ok cur c, of envid True])
    case 1
    then show ?thesis using False kernel_invI [OF ok cur] by (auto simp: sys_page_unmap_def ret_def E_BAD_ENV_def)
  next
    case (2 e d)
    then have "d \<in> spaces s" by (blast intro: space_mem)
    from kernel_page_remove [OF ok cur this good_va [OF False]] obtain s' ps' where
      r: "page_remove d va s = Some s'" "kernel_ok s' ps' es" "cur_ok s'" "remapped s d (vpn va) None s'" by blast
    then have "sys_page_unmap envid va s = Some (Returns 0, s')" using False 2 by (simp add: sys_page_unmap_def ret_def)
    then show ?thesis using kernel_invI [OF r(2,3)] 2 r(4) by blast
  qed
qed

section \<open>Properties\<close>

text \<open>
  (C3) \<^verbatim>\<open>sys_page_alloc\<close> never panics and keeps the invariant of the kernel.  When it returns 0, the
  page asked for is mapped in the environment named, to a zeroed frame that no address space
  mapped before, and nothing else changes in any address space; otherwise it returns
  \<open>-E_INVAL\<close>, \<open>-E_NO_MEM\<close> or \<open>-E_BAD_ENV\<close> and all address spaces are as before.
\<close>

theorem sys_page_alloc_maps_zeroed_page:
  assumes "kernel_inv s" and "curenv s = Some c"
  shows "\<exists>r s'. sys_page_alloc envid va perm s = Some (Returns r, s') \<and> kernel_inv s' \<and>
     (r = 0 \<and> mapped_fresh envid va perm s s' \<or> r \<in> {- E_INVAL, - E_NO_MEM, - E_BAD_ENV} \<and> same_maps s s')"
  using assms sys_page_alloc_cases unfolding kernel_inv_def by blast

theorem sys_page_alloc_maps_zeroed_page_witness:
  "\<exists>r s'. sys_page_alloc 0 0x800000 (PTE_U OR PTE_P) demo4 = Some (Returns r, s') \<and> kernel_inv s' \<and>
     (r = 0 \<and> mapped_fresh 0 0x800000 (PTE_U OR PTE_P) demo4 s' \<or>
      r \<in> {- E_INVAL, - E_NO_MEM, - E_BAD_ENV} \<and> same_maps demo4 s')"
  by (rule sys_page_alloc_maps_zeroed_page [OF demo4_inv, of 0]) simp

text \<open>
  (C4) \<^verbatim>\<open>sys_page_map\<close> never panics and keeps the invariant, as long as no reference count is at its
  maximum.  When it returns 0, the frame the source environment has at the source address is
  also what the destination has at the destination address, with the permissions asked for, and
  nothing else changes; when it returns an error, the state is unchanged.
\<close>

theorem sys_page_map_shares_frame:
  assumes "kernel_inv s" and "curenv s = Some c" and "unsaturated s"
  shows "\<exists>r s'. sys_page_map srcenvid srcva dstenvid dstva perm s = Some (Returns r, s') \<and> kernel_inv s' \<and>
     (r = 0 \<and> mapped_shared srcenvid srcva dstenvid dstva perm s s' \<or>
      r \<in> {- E_INVAL, - E_NO_MEM, - E_BAD_ENV} \<and> s' = s)"
  using assms sys_page_map_cases unfolding kernel_inv_def by blast

theorem sys_page_map_shares_frame_witness:
  "\<exists>r s'. sys_page_map 0 0x800000 0 0x900000 (PTE_U OR PTE_P) demo4 = Some (Returns r, s') \<and> kernel_inv s' \<and>
     (r = 0 \<and> mapped_shared 0 0x800000 0 0x900000 (PTE_U OR PTE_P) demo4 s' \<or>
      r \<in> {- E_INVAL, - E_NO_MEM, - E_BAD_ENV} \<and> s' = demo4)"
  by (rule sys_page_map_shares_frame [OF demo4_inv, of 0]) (simp_all add: unsaturated_def)

text \<open>
  (C5) \<^verbatim>\<open>sys_page_unmap\<close> never panics and keeps the invariant.  When it returns 0, exactly the page
  named is unmapped; when it returns an error, the state is unchanged.
\<close>

theorem sys_page_unmap_removes_page:
  assumes "kernel_inv s" and "curenv s = Some c"
  shows "\<exists>r s'. sys_page_unmap envid va s = Some (Returns r, s') \<and> kernel_inv s' \<and>
     (r = 0 \<and> (\<exists>e d. envid2env envid True s = Some (0, Some e) \<and> env_pgdir (envs s e) = Some d \<and> remapped s d (vpn va) None s') \<or>
      r \<in> {- E_INVAL, - E_BAD_ENV} \<and> s' = s)"
  using assms sys_page_unmap_cases unfolding kernel_inv_def by blast

theorem sys_page_unmap_removes_page_witness:
  "\<exists>r s'. sys_page_unmap 0x1000 0x800000 demo4 = Some (Returns r, s') \<and> kernel_inv s' \<and>
     (r = 0 \<and> (\<exists>e d. envid2env 0x1000 True demo4 = Some (0, Some e) \<and> env_pgdir (envs demo4 e) = Some d \<and>
        remapped demo4 d (vpn 0x800000) None s') \<or> r \<in> {- E_INVAL, - E_BAD_ENV} \<and> s' = demo4)"
  by (rule sys_page_unmap_removes_page [OF demo4_inv, of 0]) simp

end
