(* ===== verification/Sys_Inv.thy ===== *)
theory Sys_Inv
  imports Sys_Mem
begin

text \<open>
  Every system call but \<^verbatim>\<open>sys_pkt_try_recv\<close>, every trap from user mode and every store by user code
  keeps the invariant of the kernel.  \<open>keeps m\<close> says so of a computation \<open>m\<close>: if it
  does not panic, the state it ends in satisfies \<open>kernel_inv\<close>.
\<close>

section \<open>Computations that keep the invariant\<close>

definition keeps :: "('a \<times> kstate) option \<Rightarrow> bool" where
  "keeps m = (case m of None \<Rightarrow> True | Some (_, s) \<Rightarrow> kernel_inv s)"

named_theorems keeping

lemma keeps_simps [simp]: "keeps None" "keeps (Some (x, s)) = kernel_inv s"
  by (simp_all add: keeps_def)

lemma keeps_bind [keeping]: "(\<And>a. m = Some a \<Longrightarrow> keeps (f a)) \<Longrightarrow> keeps (Option.bind m f)"
  by (cases m) auto

lemma keeps_bind2 [keeping]:
  "(\<And>a b. m = Some (a, b) \<Longrightarrow> keeps (f a b)) \<Longrightarrow> keeps (Option.bind m (\<lambda>(a, b). f a b))"
  by (cases m) auto

lemma keeps_if [keeping]: "(b \<Longrightarrow> keeps m) \<Longrightarrow> (\<not> b \<Longrightarrow> keeps m') \<Longrightarrow> keeps (if b then m else m')"
  by simp

lemma keeps_ret [simp]: "keeps (ret a s) = kernel_inv s"
  by (simp add: ret_def)

lemma keeps_leave [simp]: "keeps (leave m) = keeps m"
  by (auto simp: leave_def keeps_def split: option.split)

lemma keeps_andthen [keeping]:
  "keeps m \<Longrightarrow> (\<And>a s. m = Some (Returns a, s) \<Longrightarrow> keeps (f a s)) \<Longrightarrow> keeps (andthen m f)"
  by (auto simp: andthen_def split: option.splits flow.splits)

lemma keepsD: "keeps m \<Longrightarrow> m = Some (x, s) \<Longrightarrow> kernel_inv s"
  by simp

text \<open>The part of the state the invariant reads.\<close>

definition core where
  "core s = (pmem s, pages s, page_free_list s, npages s, kern_pgdir s, env_free_list s, curenv s, cr3 s,
     \<lambda>e. (env_pgdir (envs s e), env_link (envs s e), env_status (envs s e), env_ipc_dstva (envs s e)))"

lemma kernel_inv_live:
  assumes inv: "kernel_inv s" and "pmem s' = pmem s" "pages s' = pages s" "page_free_list s' = page_free_list s"
    "npages s' = npages s" "kern_pgdir s' = kern_pgdir s" "env_free_list s' = env_free_list s"
    and e: "\<And>e. env_pgdir (envs s' e) = env_pgdir (envs s e) \<and> env_link (envs s' e) = env_link (envs s e) \<and>
        env_ipc_dstva (envs s' e) < UTOP"
    and f: "\<And>e. e < NENV \<Longrightarrow> env_pgdir (envs s e) = None \<Longrightarrow> env_status (envs s' e) = env_status (envs s e)"
    and c: "\<And>c. curenv s' = Some c \<Longrightarrow> c < NENV \<and> env_pgdir (envs s c) = Some (cr3 s')"
  shows "kernel_inv s'"
proof -
  from inv obtain ps es where ok: "kernel_ok s ps es" by (auto simp: kernel_inv_def)
  have "kernel_ok s' ps es" by (rule kernel_ok_cong [OF ok assms(2-7)]) (simp_all add: e f)
  moreover have "cur_ok s'" using c e by (auto simp: cur_ok_def)
  ultimately show ?thesis by (rule kernel_invI)
qed

lemma kernel_invD:
  assumes "kernel_inv s"
  shows "env_ipc_dstva (envs s e) < UTOP" and "curenv s = Some c \<Longrightarrow> c < NENV"
    and "curenv s = Some c \<Longrightarrow> env_pgdir (envs s c) = Some (cr3 s)"
    and "e < NENV \<Longrightarrow> env_status (envs s e) \<noteq> ENV_FREE \<Longrightarrow> env_pgdir (envs s e) \<noteq> None"
  using assms by (auto simp: kernel_inv_def cur_ok_def kernel_ok_def envs_ok_def)

lemma kernel_inv_core: "core s' = core s \<Longrightarrow> kernel_inv s \<Longrightarrow> kernel_inv s'"
proof -
  assume c: "core s' = core s" and inv: "kernel_inv s"
  have eq: "env_pgdir (envs s' e) = env_pgdir (envs s e)" "env_link (envs s' e) = env_link (envs s e)"
    "env_status (envs s' e) = env_status (envs s e)" "env_ipc_dstva (envs s' e) = env_ipc_dstva (envs s e)" for e
    using c by (auto simp: core_def fun_eq_iff)
  show ?thesis
    by (rule kernel_inv_live [OF inv]) (use c kernel_invD [OF inv] in \<open>auto simp: core_def eq\<close>)
qed

text \<open>Changing a live environment, other than its directory and link.\<close>

lemma kernel_inv_upd_env:
  assumes inv: "kernel_inv s" and live: "env_pgdir (envs s e) \<noteq> None"
    and g: "\<And>x. env_pgdir (g x) = env_pgdir x \<and> env_link (g x) = env_link x"
    and "env_ipc_dstva (g (envs s e)) < UTOP"
  shows "kernel_inv (upd_env e g s)"
  by (rule kernel_inv_live [OF inv]) (use assms(2-4) kernel_invD [OF inv] in auto)

section \<open>Output\<close>

text \<open>\<open>quiet s m\<close>: the computation \<open>m\<close>, started in \<open>s\<close>, changes nothing the invariant reads.\<close>

definition quiet :: "kstate \<Rightarrow> kstate option \<Rightarrow> bool" where
  "quiet s m \<longleftrightarrow> (\<forall>s'. m = Some s' \<longrightarrow> core s' = core s)"

named_theorems quietly

lemma quiet_kprintf [quietly]: "core t = core s \<Longrightarrow> quiet s (kprintf fmt ap t)"
  by (auto simp: quiet_def kprintf_def core_def)

lemma quiet_Some [quietly]: "core t = core s \<Longrightarrow> quiet s (Some t)"
  by (simp add: quiet_def)

lemma quiet_bind [quietly]: "quiet s m \<Longrightarrow> (\<And>t. core t = core s \<Longrightarrow> quiet s (f t)) \<Longrightarrow> quiet s (Option.bind m f)"
  unfolding quiet_def bind_Some by blast

lemma quiet_if [quietly]: "quiet s m \<Longrightarrow> quiet s m' \<Longrightarrow> quiet s (if b then m else m')"
  by simp

lemma quietD: "quiet s m \<Longrightarrow> m = Some s' \<Longrightarrow> core s' = core s"
  by (simp add: quiet_def)

lemma quiet_inv: "quiet s m \<Longrightarrow> kernel_inv s \<Longrightarrow> m = Some s' \<Longrightarrow> kernel_inv s'"
  using kernel_inv_core quietD by blast

lemma quiet_print_regs [quietly]: "core t = core s \<Longrightarrow> quiet s (print_regs r t)"
  unfolding print_regs_def print_word_def by (intro quietly)

lemma quiet_print_trapframe [quietly]: "core t = core s \<Longrightarrow> quiet s (print_trapframe p t)"
  unfolding print_trapframe_def print_half_def print_word_def Let_def by (intro quietly)

section \<open>Scheduling\<close>

text \<open>A switch does not need the old current environment to be alive.\<close>

lemma keeps_env_run [keeping]:
  assumes inv: "kernel_inv s" and e: "e < NENV"
  shows "keeps (env_run e s)"
proof (cases "env_pgdir (envs s e)")
  case None
  then show ?thesis using env_run_no_pgdir by simp
next
  case (Some d)
  show ?thesis
  proof (cases "klock s")
    case True
    have "kernel_inv (switched e d s)"
    proof (rule kernel_inv_live [OF inv])
      fix x assume x: "x < NENV" "env_pgdir (envs s x) = None"
      then have "env_status (envs s x) = ENV_FREE" using kernel_invD(4) [OF inv] by blast
      then show "env_status (envs (switched e d s) x) = env_status (envs s x)"
        using x Some by (auto simp: switched_status jos_consts)
    qed (use Some e kernel_invD(1) [OF inv] in \<open>auto simp: switched_def Let_def split: option.split\<close>)
    then show ?thesis using env_run_switched [OF Some True] by simp
  next
    case False
    then show ?thesis using Some by (simp add: env_run_def unlock_kernel_def Let_def split: option.split)
  qed
qed

lemma keeps_sched_halt [keeping]:
  assumes inv: "kernel_inv s"
  shows "keeps (sched_halt s)"
proof -
  let ?s = "s\<lparr>curenv := None, cr3 := kern_pgdir s, cpu_status := CPU_HALTED\<rparr>"
  have "kernel_inv (?s\<lparr>klock := False\<rparr>)"
    by (rule kernel_inv_live [OF inv]) (use kernel_invD(1) [OF inv] in auto)
  then have h: "keeps (do { s1 \<leftarrow> unlock_kernel ?s; Some (HaltCpu, s1) })" by (simp add: unlock_kernel_def)
  have p: "keeps (do { s1 \<leftarrow> kprintf f a s; Some (Monitor, s1) })" for f a
    using quiet_inv [OF quiet_kprintf [OF refl] inv] by (intro keeps_bind) auto
  show ?thesis unfolding sched_halt_def using h p by (simp only: split: if_split) blast
qed

lemma keeps_sched_yield [keeping]:
  assumes inv: "kernel_inv s"
  shows "keeps (sched_yield s)"
proof -
  have "w < NENV" if "find (\<lambda>w. env_status (envs s w) = ENV_RUNNABLE) (map (\<lambda>i. (sched_start s + i) mod NENV) [0..<NENV]) = Some w" for w
    using sched_pick_nearest(2) [of s w] that by (simp add: sched_pick_def)
  then show ?thesis unfolding sched_yield_def
    using keeps_env_run [OF inv] keeps_sched_halt [OF inv] kernel_invD(2) [OF inv] by (auto split: option.split)
qed

section \<open>Destroying and creating environments\<close>

lemma spaces_without:
  assumes "envs_ok s es" and "e < NENV" and "env_pgdir (envs s e) = Some d"
    and "envs s' = (envs s)(e := x)" and "env_pgdir x = None"
  shows "spaces s' = spaces s - {d}"
proof -
  have inj: "x = e" if "x < NENV" "env_pgdir (envs s x) = Some d" for x
    using assms(1-3) that unfolding envs_ok_def by blast
  have p: "env_pgdir (envs s' y) = (if y = e then None else env_pgdir (envs s y))" for y by (simp add: assms(4,5))
  show ?thesis
  proof (intro set_eqI iffI)
    fix x assume "x \<in> spaces s'"
    then obtain y where "y < NENV" "y \<noteq> e" "env_pgdir (envs s y) = Some x" by (auto simp: spaces_def p split: if_splits)
    then show "x \<in> spaces s - {d}" using inj space_mem by blast
  next
    fix x assume "x \<in> spaces s - {d}"
    then obtain y where y: "y < NENV" "env_pgdir (envs s y) = Some x" "x \<noteq> d" by (auto simp: spaces_def)
    then have "y \<noteq> e" using assms(3) by auto
    with y show "x \<in> spaces s'" by (auto simp: spaces_def p)
  qed
qed

lemma kernel_ok_env_free:
  assumes ok: "kernel_ok s ps es" and e: "e < NENV" and d: "env_pgdir (envs s e) = Some d"
  obtains s' ps' where "env_free e s = Some s'" and "kernel_ok s' ps' (e # es)" and "curenv s' = curenv s"
    and "curenv s \<noteq> Some e \<Longrightarrow> cr3 s' = cr3 s" and "klock s' = klock s"
    and "\<And>x. x \<noteq> e \<Longrightarrow> envs s' x = envs s x" and "env_ipc_dstva (envs s' e) = env_ipc_dstva (envs s e)"
proof -
  note k = kernel_okD [OF ok]
  have dD: "d \<in> spaces s" using space_mem [OF e d] .
  from env_free_correct [OF k(1,2) dD d] obtain s' ps' where
    f: "env_free e s = Some s'" "vm_ok s' (spaces s - {d}) ps'"
    and en: "envs s' = (envs s)(e := (envs s e)\<lparr>env_pgdir := None, env_status := ENV_FREE, env_link := env_free_list s\<rparr>)"
    and fl: "env_free_list s' = Some e" and same: "curenv s' = curenv s" "kern_pgdir s' = kern_pgdir s"
      "npages s' = npages s" "klock s' = klock s" "cr3 s' = (if curenv s = Some e then kern_pgdir s else cr3 s)"
    and u: "uframes s' (spaces s - {d}) ps' \<subseteq> uframes s (spaces s) ps" and own: "owned_once s' (spaces s - {d})"
    and m: "\<And>f. f \<notin> uframes s (spaces s) ps \<Longrightarrow> pmem s' f = pmem s f" by metis
  have sp: "spaces s' = spaces s - {d}" by (rule spaces_without [OF k(4) e d en]) simp
  have ne: "e \<notin> set es" using k(4) e d by (auto simp: envs_ok_def)
  have K: "kframes s \<subseteq> {..<npages s} - uframes s (spaces s) ps" using k(3) by (simp add: kframes_ok_def)
  then have kp: "pmem s' (kern_pgdir s) = pmem s (kern_pgdir s)" by (intro m) (auto simp: kframes_def)
  have "kframes_ok s' ps'"
    unfolding kframes_ok_def sp same kp kframes_cong [OF same(2) kp] using k(3) K u by (auto simp: kframes_ok_def)
  moreover have "envs_ok s' (e # es)"
  proof -
    have "chain env_link (envs s) (env_free_list s) es" using k(5) by (simp add: env_list_def)
    then have "chain env_link (envs s') (Some e) (e # es)" using ne by (simp add: en)
    then have "env_list s' (e # es)" using k(5) ne e fl by (simp add: env_list_def)
    then show ?thesis using k(4) by (auto simp: envs_ok_def en)
  qed
  ultimately have "kernel_ok s' ps' (e # es)" using f(2) own by (simp add: kernel_ok_def sp)
  then show thesis using that [OF f(1)] same en by simp
qed

lemma keeps_env_destroy [keeping]:
  assumes inv: "kernel_inv s" and e: "e < NENV" and d: "env_pgdir (envs s e) \<noteq> None"
  shows "keeps (env_destroy e s)"
proof (cases "env_status (envs s e) = ENV_RUNNING \<and> curenv s \<noteq> Some e")
  case True
  have "kernel_inv (upd_env e (\<lambda>x. x\<lparr>env_status := ENV_DYING\<rparr>) s)"
    using kernel_inv_upd_env [OF inv d] kernel_invD(1) [OF inv] by simp
  then show ?thesis using True by (simp add: env_destroy_def)
next
  case False
  from inv obtain ps es where ok: "kernel_ok s ps es" by (auto simp: kernel_inv_def)
  from d obtain d' where d': "env_pgdir (envs s e) = Some d'" by blast
  from kernel_ok_env_free [OF ok e d'] obtain s' ps' where
    f: "env_free e s = Some s'" "kernel_ok s' ps' (e # es)" "curenv s' = curenv s" "curenv s \<noteq> Some e \<Longrightarrow> cr3 s' = cr3 s"
      "\<And>x. x \<noteq> e \<Longrightarrow> envs s' x = envs s x" "env_ipc_dstva (envs s' e) = env_ipc_dstva (envs s e)" by blast
  have dv: "env_ipc_dstva (envs s' x) < UTOP" for x
    using kernel_invD(1) [OF inv] f(5,6) by (cases "x = e") auto
  show ?thesis
  proof (cases "curenv s = Some e")
    case True
    have "kernel_ok (s'\<lparr>curenv := None\<rparr>) ps' (e # es)" by (rule kernel_ok_cong [OF f(2)]) simp_all
    then have "kernel_inv (s'\<lparr>curenv := None\<rparr>)" using dv by (intro kernel_invI) (auto simp: cur_ok_def)
    from keeps_sched_yield [OF this] show ?thesis
      using False True f by (auto simp: env_destroy_def keeps_def split: option.splits bind_splits)
  next
    case ne: False
    have "cur_ok s'" using dv kernel_invD(2,3) [OF inv] f(3-5) ne unfolding cur_ok_def by metis
    then have "kernel_inv s'" using f(2) kernel_invI by blast
    then show ?thesis using False ne f by (simp add: env_destroy_def)
  qed
qed

lemma kernel_ok_template: "kernel_ok s ps es \<Longrightarrow> template_ok s (spaces s) ps"
  unfolding kernel_ok_def kframes_ok_def kframes_def template_ok_def uframes_def by auto

lemma spaces_with:
  assumes "e < NENV" and "env_pgdir (envs s e) = None" and "envs s' = (envs s)(e := x)" and "env_pgdir x = Some p"
  shows "spaces s' = insert p (spaces s)"
proof -
  have q: "env_pgdir (envs s' y) = (if y = e then Some p else env_pgdir (envs s y))" for y by (simp add: assms(3,4))
  have "x \<in> spaces s'" if "x \<in> spaces s" for x
  proof -
    from that obtain y where "y < NENV" "env_pgdir (envs s y) = Some x" by (auto simp: spaces_def)
    moreover from this have "y \<noteq> e" using assms(2) by auto
    ultimately show ?thesis by (auto simp: spaces_def q)
  qed
  moreover have "p \<in> spaces s'" using assms(1) by (auto simp: spaces_def q)
  moreover have "spaces s' \<subseteq> insert p (spaces s)" by (auto simp: spaces_def q split: if_splits)
  ultimately show ?thesis by blast
qed

lemma with_env_parts:
  "envs (with_env parent p ps e s) = (envs s)(e := fresh_env parent e p (envs s e))"
  "kern_pgdir (with_env parent p ps e s) = kern_pgdir s" "npages (with_env parent p ps e s) = npages s"
  "curenv (with_env parent p ps e s) = curenv s" "cr3 (with_env parent p ps e s) = cr3 s"
  "f \<noteq> p \<Longrightarrow> pmem (with_env parent p ps e s) f = pmem s f"
  by (simp_all add: with_env_def new_dir_def popped_def)

lemma kernel_ok_with_env:
  assumes ok: "kernel_ok s (p # ps) (e # es)"
  shows "kernel_ok (with_env parent p ps e s) ps es" (is "kernel_ok ?s' ps es")
proof -
  note k = kernel_okD [OF ok] and tm = kernel_ok_template [OF ok]
  note vm = vm_ok_with_env [OF k(1) tm, where parent = parent and e = e]
  let ?D = "spaces s"
  have e: "e < NENV" "env_pgdir (envs s e) = None" "e \<notin> set es"
    using k(4,5) by (auto simp: envs_ok_def env_list_def)
  have sp: "spaces ?s' = insert p ?D" by (rule spaces_with [OF e(1,2) with_env_parts(1)]) (simp add: fresh_env_def)
  have pU: "p \<in> uframes s ?D (p # ps)" and pD: "p \<notin> ?D" using k(1) by (auto simp: uframes_def vm_ok_def tables_ok_def)
  have K: "kframes s \<subseteq> {..<npages s} - uframes s ?D (p # ps)" using k(3) by (simp add: kframes_ok_def)
  then have "kern_pgdir s \<noteq> p" using pU by (auto simp: kframes_def)
  then have kp: "pmem ?s' (kern_pgdir s) = pmem s (kern_pgdir s)" by (rule with_env_parts(6))
  have u: "uframes ?s' (insert p ?D) ps \<subseteq> uframes s ?D (p # ps)"
  proof -
    have "\<not> pres (pmem ?s' p i)" if "i < user_pdx" for i
      using that tm by (auto simp: with_env_def new_dir_pmem PDX_UVPT user_pdx_def template_ok_def)
    then have sl: "slots ?s' (insert p ?D) = slots ?s' ?D" by (auto simp: slots_def)
    have "p \<notin> ?D \<union> tab s ` slots s ?D" using k(1) by (auto simp: vm_ok_def tables_ok_def)
    then have "\<forall>f \<in> ?D \<union> tab s ` slots s ?D. pmem ?s' f = pmem s f" by (intro ballI with_env_parts(6)) auto
    note fr = tables_frame [OF _ this, of "p # ps"]
    have "tab ?s' ` slots ?s' ?D = tab s ` slots s ?D" "\<And>q. leaves ?s' (insert p ?D) q = leaves s ?D q"
      using fr(3,6) k(1) by (simp_all add: vm_ok_def leaves_def sl)
    then show ?thesis unfolding uframes_def sl by auto
  qed
  have "kframes_ok ?s' ps"
    unfolding kframes_ok_def sp with_env_parts(2,3) kp kframes_cong [OF with_env_parts(2) kp]
    using k(3) K u by (auto simp: kframes_ok_def)
  moreover have "envs_ok ?s' es"
  proof -
    have nd: "env_pgdir (envs s x) \<noteq> Some p" if "x < NENV" for x using that pD space_mem by blast
    show ?thesis using k(4) env_list_with_env [OF k(5)] e nd
      unfolding envs_ok_def with_env_parts(1) by (auto simp: fresh_env_def)
  qed
  ultimately show ?thesis using vm(1,4) k(2) by (simp add: kernel_ok_def sp)
qed

lemma keeps_env_alloc:
  assumes inv: "kernel_inv s" and "env_alloc parent s = Some (r, eo, s')"
  shows "kernel_inv s'" and "\<not> r < 0 \<Longrightarrow> \<exists>e d. eo = Some e \<and> e < NENV \<and> env_pgdir (envs s' e) = Some d"
proof -
  from inv obtain ps es where ok: "kernel_ok s ps es" by (auto simp: kernel_inv_def)
  note k = kernel_okD [OF ok]
  have "kern_pgdir s \<notin> set ps" using k(3) by (auto simp: kframes_ok_def kframes_def uframes_def)
  note c = env_alloc_cases [OF k(6,5) this]
  have "kernel_inv s' \<and> (\<not> r < 0 \<longrightarrow> (\<exists>e d. eo = Some e \<and> e < NENV \<and> env_pgdir (envs s' e) = Some d))"
  proof (cases es)
    case Nil
    then show ?thesis using c(1) assms by (simp add: E_NO_FREE_ENV_def)
  next
    case (Cons e es')
    show ?thesis
    proof (cases ps)
      case Nil
      then show ?thesis using c(2) Cons assms by (simp add: E_NO_MEM_def)
    next
      case ps: (Cons p ps')
      have s': "s' = with_env parent p ps' e s" "eo = Some e" using c(3) [OF Cons ps] assms(2) by auto
      have "kernel_ok s' ps' es'" unfolding s' using kernel_ok_with_env ok Cons ps by blast
      moreover have en: "e < NENV" "env_pgdir (envs s e) = None"
        using k(4,5) Cons by (auto simp: envs_ok_def env_list_def)
      moreover have "cur_ok s'"
        using inv en(2) unfolding s' by (auto simp: kernel_inv_def cur_ok_def with_env_parts fresh_env_def)
      ultimately show ?thesis using s' kernel_invI by (auto simp: with_env_parts fresh_env_def)
    qed
  qed
  then show "kernel_inv s'" "\<not> r < 0 \<Longrightarrow> \<exists>e d. eo = Some e \<and> e < NENV \<and> env_pgdir (envs s' e) = Some d" by blast+
qed

section \<open>The system calls\<close>

lemma user_mem_check_loop_core:
  "user_mem_check_loop n pgdir b fin va perm s = Some (r, s') \<Longrightarrow> core s' = core s \<and> envs s' = envs s"
  by (induction n pgdir b fin va perm s rule: user_mem_check_loop.induct)
    (auto simp: core_def bind_Some split: if_splits)

lemma user_mem_check_core:
  "user_mem_check e va len perm s = Some (r, s') \<Longrightarrow> core s' = core s \<and> envs s' = envs s"
  unfolding user_mem_check_def Let_def bind_Some using user_mem_check_loop_core by blast

lemma keeps_user_mem_assert [keeping]:
  assumes inv: "kernel_inv s" and e: "e < NENV" and d: "env_pgdir (envs s e) \<noteq> None"
  shows "keeps (user_mem_assert e va len perm s)"
  unfolding user_mem_assert_def
proof (intro keeps_bind)
  fix a assume a: "user_mem_check e va len (perm OR PTE_U) s = Some a"
  obtain r s1 where a': "a = (r, s1)" by (cases a)
  note c = user_mem_check_core [OF a [unfolded a']]
  have inv1: "kernel_inv s1" using kernel_inv_core c inv by blast
  have "keeps (Option.bind (kprintf f x s1) (env_destroy e))" for f x
  proof (rule keeps_bind)
    fix s2 assume "kprintf f x s1 = Some s2"
    then have "kernel_inv s2" "envs s2 = envs s1"
      using quiet_inv [OF quiet_kprintf [OF refl] inv1] by (auto simp: kprintf_def)
    then show "keeps (env_destroy e s2)" using c e d by (intro keeps_env_destroy) auto
  qed
  then show "keeps (case a of (r, s1) \<Rightarrow> if r < 0
        then do { s2 \<leftarrow> kprintf (''[%08x] user_mem_check assertion failure for va %08x'' @ nl)
                          [VInt (env_id (envs s1 e)), VInt (user_mem_check_addr s1)] s1; env_destroy e s2 }
        else Some (Returns (), s1))"
    using inv1 a' by simp
qed

text \<open>What \<^verbatim>\<open>envid2env\<close> finds is alive.\<close>

lemma envid2env_found:
  assumes inv: "kernel_inv s" and c: "curenv s = Some c" and r: "envid2env i chk s = Some (r, eo)" "\<not> r < 0"
  shows "\<exists>e. eo = Some e \<and> e < NENV \<and> env_pgdir (envs s e) \<noteq> None"
proof -
  from inv obtain ps es where ok: "kernel_ok s ps es" "cur_ok s" by (auto simp: kernel_inv_def)
  show ?thesis by (cases rule: envid2env_live [OF ok c, of i chk]) (use r in \<open>auto simp: E_BAD_ENV_def\<close>)
qed

lemma keeps_sys_page:
  assumes inv: "kernel_inv s" and c: "curenv s = Some c"
  shows "keeps (sys_page_alloc envid va perm s)" and "keeps (sys_page_unmap envid va s)"
    and "unsaturated s \<Longrightarrow> keeps (sys_page_map e1 va1 e2 va2 perm s)"
proof -
  from inv obtain ps es where ok: "kernel_ok s ps es" "cur_ok s" by (auto simp: kernel_inv_def)
  show "keeps (sys_page_alloc envid va perm s)" using sys_page_alloc_cases [OF ok c] by (metis keeps_simps(2))
  show "keeps (sys_page_unmap envid va s)" using sys_page_unmap_cases [OF ok c] by (metis keeps_simps(2))
  show "keeps (sys_page_map e1 va1 e2 va2 perm s)" if "unsaturated s"
    using sys_page_map_cases [OF ok c that] by (metis keeps_simps(2))
qed

lemma keeps_sys_env_destroy:
  assumes inv: "kernel_inv s" and c: "curenv s = Some c"
  shows "keeps (sys_env_destroy envid s)"
  unfolding sys_env_destroy_def
proof (intro keeps_bind2 keeps_if keeps_bind keeps_andthen)
  fix r eo e assume a: "envid2env envid True s = Some (r, eo)" "\<not> r < 0" "eo = Some e"
  then have "e < NENV" "env_pgdir (envs s e) \<noteq> None" using envid2env_found [OF inv c a(1,2)] by auto
  then show k: "keeps (env_destroy e s)" by (rule keeps_env_destroy [OF inv])
  show "keeps (ret 0 t)" if "env_destroy e s = Some (Returns u, t)" for u t using keepsD [OF k that] by simp
qed (use inv in simp)

lemma keeps_sys_exofork:
  assumes inv: "kernel_inv s"
  shows "keeps (sys_exofork s)"
  unfolding sys_exofork_def
proof (intro keeps_bind)
  fix c a assume a: "env_alloc (env_id (envs s c)) s = Some a"
  obtain r eo s1 where a': "a = (r, eo, s1)" by (cases a)
  note al = keeps_env_alloc [OF inv a [unfolded a']]
  show "keeps (case a of (r, env, s1) \<Rightarrow> if r < 0 then ret r s1
     else do { env \<leftarrow> env;
               let s2 = upd_env env (\<lambda>x. x\<lparr>env_status := ENV_NOT_RUNNABLE\<rparr>) s1;
               let tf = env_tf (envs s2 c);
               let s3 = upd_env env (\<lambda>x. x\<lparr>env_tf := tf\<lparr>tf_regs := (tf_regs tf)\<lparr>reg_eax := 0\<rparr>\<rparr>\<rparr>) s2;
               ret (sint (env_id (envs s3 env))) s3 })"
  proof (cases "r < 0")
    case False
    with al(2) obtain e d where e: "eo = Some e" "env_pgdir (envs s1 e) = Some d" by blast
    let ?s2 = "upd_env e (\<lambda>x. x\<lparr>env_status := ENV_NOT_RUNNABLE\<rparr>) s1"
    have i2: "kernel_inv ?s2" using e kernel_invD(1) [OF al(1)] by (intro kernel_inv_upd_env [OF al(1)]) auto
    have "kernel_inv (upd_env e (\<lambda>x. x\<lparr>env_tf := f\<rparr>) ?s2)" for f
      using e kernel_invD(1) [OF al(1)] by (intro kernel_inv_upd_env [OF i2]) auto
    then show ?thesis using False a' e(1) by (simp add: Let_def)
  qed (use a' al(1) in simp)
qed

lemma found_upd:
  assumes inv: "kernel_inv s" and c: "curenv s = Some c" and a: "envid2env i chk s = Some a"
    and g: "\<And>x. env_pgdir (g x) = env_pgdir x \<and> env_link (g x) = env_link x \<and> env_ipc_dstva (g x) = env_ipc_dstva x"
    and e: "snd a = Some e" "\<not> fst a < 0"
  shows "kernel_inv (upd_env e g s)"
proof -
  have "envid2env i chk s = Some (fst a, Some e)" using a e(1) by (cases a) simp
  then have "env_pgdir (envs s e) \<noteq> None" using envid2env_found [OF inv c _ e(2)] by auto
  then show ?thesis using g kernel_invD(1) [OF inv] by (intro kernel_inv_upd_env [OF inv]) auto
qed

lemma keeps_sys_env_set:
  assumes inv: "kernel_inv s" and c: "curenv s = Some c"
  shows "keeps (sys_env_set_status envid st s)" and "keeps (sys_env_set_pgfault_upcall envid func s)"
    and "keeps (sys_env_set_trapframe envid tf s)"
proof -
  show "keeps (sys_env_set_status envid st s)" "keeps (sys_env_set_pgfault_upcall envid func s)"
    unfolding sys_env_set_status_def sys_env_set_pgfault_upcall_def
    using inv found_upd [OF inv c] by (auto intro!: keeps_bind)
  show "keeps (sys_env_set_trapframe envid tf s)"
    unfolding sys_env_set_trapframe_def Let_def
  proof (intro keeps_bind2 keeps_if keeps_bind)
    fix r eo e r' s1
    assume a: "envid2env envid True s = Some (r, eo)" "\<not> r < 0" "eo = Some e"
      and ch: "user_mem_check e tf sizeof_Trapframe PTE_U s = Some (r', s1)"
    note k = user_mem_check_core [OF ch]
    have i1: "kernel_inv s1" using kernel_inv_core k inv by blast
    then show "keeps (ret r' s1)" by simp
    have "env_pgdir (envs s e) \<noteq> None" using envid2env_found [OF inv c a(1,2)] a(3) by auto
    then have "kernel_inv (upd_env e (\<lambda>x. x\<lparr>env_tf := f\<rparr>) s1)" for f
      using k kernel_invD(1) [OF i1] by (intro kernel_inv_upd_env [OF i1]) auto
    then show "keeps (ret 0 (upd_env e (\<lambda>x. x\<lparr>env_tf := read_Trapframe bs\<lparr>tf_cs := tf_cs (read_Trapframe bs) OR 3,
        tf_eflags := (tf_eflags (read_Trapframe bs) OR FL_IF) AND NOT FL_IOPL_MASK\<rparr>\<rparr>) s1))" for bs by simp
  qed (use inv in simp)
qed

lemma keeps_quiet_calls:
  assumes inv: "kernel_inv s"
  shows "keeps (sys_cgetc s)" and "keeps (sys_getenvid s)" and "keeps (sys_time_msec s)"
proof -
  have "kernel_inv (s\<lparr>cons := con\<rparr>)" for con by (rule kernel_inv_core [OF _ inv]) (simp add: core_def)
  then show "keeps (sys_cgetc s)" unfolding sys_cgetc_def by (auto intro!: keeps_bind)
  show "keeps (sys_getenvid s)" "keeps (sys_time_msec s)"
    using inv by (auto simp: sys_getenvid_def sys_time_msec_def intro!: keeps_bind)
qed

lemma keeps_checked_calls:
  assumes inv: "kernel_inv s"
  shows "keeps (sys_cputs p len s)" and "keeps (sys_pkt_try_send buf n s)"
proof -
  have k: "keeps (user_mem_assert c va len perm s)" if "curenv s = Some c" for c va len perm
    using that kernel_invD(2,3) [OF inv] by (intro keeps_user_mem_assert [OF inv]) auto
  have "kernel_inv (s1\<lparr>cons := con\<rparr>)" "kernel_inv (s1\<lparr>nic := n\<rparr>)" if "kernel_inv s1" for s1 con n
    by (rule kernel_inv_core [OF _ that]; simp add: core_def)+
  note ci = this
  have "keeps (sys_cputs p len s) \<and> keeps (sys_pkt_try_send buf n s)"
  proof (cases "curenv s")
    case (Some c)
    note kd = keepsD [OF k [OF Some]]
    have "keeps (andthen (user_mem_assert c p len PTE_U s) (\<lambda>_ s1.
        do { cs \<leftarrow> kformat_string p n' s1; ret () (s1\<lparr>cons := fold cputchar (map scast cs) (cons s1)\<rparr>) }))" for n'
      by (intro keeps_andthen keeps_bind) (use k [OF Some] ci(1) [OF kd] in auto)
    then have "keeps (sys_cputs p len s)" by (simp add: sys_cputs_def Some)
    moreover have "keeps (andthen (user_mem_assert c buf n PTE_U s) (\<lambda>_ s1.
        do { (r, n) \<leftarrow> e1000_transmit (kread (unat n) buf s1) (nic s1); ret r (s1\<lparr>nic := n\<rparr>) }))"
      by (intro keeps_andthen keeps_bind2) (use k [OF Some] ci(2) [OF kd] in auto)
    then have "keeps (sys_pkt_try_send buf n s)" by (simp add: sys_pkt_try_send_def Some)
    ultimately show ?thesis ..
  qed (simp_all add: sys_cputs_def sys_pkt_try_send_def)
  then show "keeps (sys_cputs p len s)" "keeps (sys_pkt_try_send buf n s)" by blast+
qed

lemma keeps_sys_yield: "kernel_inv s \<Longrightarrow> keeps (sys_yield s)"
  by (simp add: sys_yield_def keeps_sched_yield)

lemma keeps_sys_ipc_recv:
  assumes inv: "kernel_inv s"
  shows "keeps (sys_ipc_recv dstva s)"
  unfolding sys_ipc_recv_def Let_def
proof (intro keeps_if keeps_bind)
  fix c assume c: "curenv s = Some c"
  define s1 where "s1 = (if dstva < UTOP then upd_env c (\<lambda>x. x\<lparr>env_ipc_dstva := dstva\<rparr>) s else s)"
  have live: "env_pgdir (envs s c) \<noteq> None" using kernel_invD(3) [OF inv c] by simp
  have i1: "kernel_inv s1" unfolding s1_def
    using inv kernel_inv_upd_env [OF inv live, of "\<lambda>x. x\<lparr>env_ipc_dstva := dstva\<rparr>"] by simp
  have "env_pgdir (envs s1 c) \<noteq> None" using live by (simp add: s1_def)
  then have "kernel_inv (upd_env c (\<lambda>x. x\<lparr>env_ipc_recving := True, env_status := ENV_NOT_RUNNABLE, env_ipc_from := 0\<rparr>) s1)"
    using kernel_invD(1) [OF i1, of c] by (intro kernel_inv_upd_env [OF i1]) simp_all
  note keeps_sched_yield [OF this]
  then show "keeps (leave (sched_yield
      (upd_env c (\<lambda>x. x\<lparr>env_ipc_recving := True, env_status := ENV_NOT_RUNNABLE, env_ipc_from := 0\<rparr>)
        (if dstva < UTOP then upd_env c (\<lambda>x. x\<lparr>env_ipc_dstva := dstva\<rparr>) s else s))))"
    unfolding keeps_leave s1_def .
qed (use inv in simp)

lemma kernel_inv_deliver:
  assumes inv: "kernel_inv s" and live: "env_pgdir (envs s dst) \<noteq> None"
  shows "kernel_inv (ipc_deliver dst from v p s)"
  unfolding ipc_deliver_def using kernel_invD(1) [OF inv] by (intro kernel_inv_upd_env [OF inv live]) auto

lemma kernel_inv_share:
  assumes inv: "kernel_inv s" and us: "unsaturated s" and d: "d \<in> spaces s" "d' \<in> spaces s"
    and v: "vmap s d n = Some (p, fl)" and va: "va < UTOP" and perm: "flags_only perm"
    and ins: "page_insert d' p va perm s = Some (r, s')"
  shows "kernel_inv s'" and "envs s' = envs s"
proof -
  from inv obtain ps es where ok: "kernel_ok s ps es" "cur_ok s" by (auto simp: kernel_inv_def)
  note m = mapped_mappable [OF ok(1) us d(1) v]
  have "kernel_inv s' \<and> envs s' = envs s"
    by (cases rule: kernel_page_insert [OF ok d(2) va m perm])
      (use ins inv in \<open>auto intro: kernel_invI dest: non_memD\<close>)
  then show "kernel_inv s'" "envs s' = envs s" by blast+
qed

lemma keeps_sys_ipc_try_send:
  assumes inv: "kernel_inv s" and us: "unsaturated s"
  shows "keeps (sys_ipc_try_send envid v srcva perm s)"
  unfolding sys_ipc_try_send_def
proof (intro keeps_bind2 keeps_if keeps_bind)
  fix r dsto dst c
  assume a: "envid2env envid False s = Some (r, dsto)" "\<not> r < 0" "dsto = Some dst" and c: "curenv s = Some c"
  have dst: "dst < NENV" "env_pgdir (envs s dst) \<noteq> None" using envid2env_found [OF inv c a(1,2)] a(3) by auto
  show plain: "keeps (ret (0 :: int) (ipc_deliver dst (env_id (envs s c)) v 0 s))" using kernel_inv_deliver [OF inv dst(2)] by simp
  fix srcdir pp pte
  assume va: "srcva < UTOP" and perm: "\<not> bad_perm perm" and sd: "env_pgdir (envs s c) = Some srcdir"
    and lk: "page_lookup srcdir srcva s = Some (pp, pte)"
  have cs: "srcdir \<in> spaces s" using space_mem [OF kernel_invD(2) [OF inv c] sd] .
  from inv obtain ps es where ok: "kernel_ok s ps es" by (auto simp: kernel_inv_def)
  from page_lookup_vmap [OF kernel_okD(1) [OF ok] cs va] lk have pp: "pp = map_option fst (vmap s srcdir (vpn srcva))" by auto
  have deliver: "keeps (do { dstdir \<leftarrow> env_pgdir (envs s dst);
      (r, s1) \<leftarrow> page_insert dstdir p (env_ipc_dstva (envs s dst)) perm s;
      if r < 0 then ret r s1 else ret 0 (ipc_deliver dst (env_id (envs s1 c)) v perm s1) })" if p: "pp = Some p" for p
  proof (intro keeps_bind2 keeps_bind)
    fix dd r s1 assume dd: "env_pgdir (envs s dst) = Some dd" "page_insert dd p (env_ipc_dstva (envs s dst)) perm s = Some (r, s1)"
    obtain fl where "vmap s srcdir (vpn srcva) = Some (p, fl)"
      using pp p by (cases "vmap s srcdir (vpn srcva)") auto
    note sh = kernel_inv_share [OF inv us cs space_mem [OF dst(1) dd(1)] this kernel_invD(1) [OF inv] good_perm [OF perm] dd(2)]
    have "kernel_inv (ipc_deliver dst f v perm s1)" for f using sh dst(2) by (intro kernel_inv_deliver) auto
    then show "keeps (if r < 0 then ret r s1 else ret 0 (ipc_deliver dst (env_id (envs s1 c)) v perm s1))" using sh(1) by simp
  qed
  show "keeps (case (pp, pte) of
      (Some pp, Some (f, i)) \<Rightarrow>
        if perm AND PTE_W \<noteq> 0 \<and> pmem s f i AND PTE_W = 0 then ret (- E_INVAL) s
        else if env_ipc_dstva (envs s dst) \<noteq> 0
        then do { dstdir \<leftarrow> env_pgdir (envs s dst);
                  (r, s1) \<leftarrow> page_insert dstdir pp (env_ipc_dstva (envs s dst)) perm s;
                  if r < 0 then ret r s1 else ret 0 (ipc_deliver dst (env_id (envs s1 c)) v perm s1) }
        else ret 0 (ipc_deliver dst (env_id (envs s c)) v 0 s)
    | _ \<Rightarrow> ret (- E_INVAL) s)"
    using deliver plain inv by (cases pp; cases pte) (auto simp del: keeps_ret simp: keeps_ret [of _ s] split: prod.split)
qed (use inv in simp_all)

lemma keeps_void: "keeps m \<Longrightarrow> keeps (andthen m (\<lambda>_. ret x))"
  by (intro keeps_andthen) auto

lemma keeps_syscall:
  assumes inv: "kernel_inv s" and c: "curenv s = Some c" and n: "n \<noteq> SYS_pkt_try_recv"
    and us: "n = SYS_page_map \<or> n = SYS_ipc_try_send \<Longrightarrow> unsaturated s"
  shows "keeps (syscall n a1 a2 a3 a4 a5 s)"
proof -
  have "keeps (ret (- E_INVAL) s)" using inv by simp
  note calls = this keeps_sys_page(1,2) [OF inv c] keeps_sys_page(3) [OF inv c us] keeps_sys_env_destroy [OF inv c]
    keeps_sys_exofork [OF inv] keeps_sys_env_set [OF inv c] keeps_quiet_calls [OF inv] keeps_checked_calls [OF inv]
    keeps_sys_yield [OF inv] keeps_sys_ipc_recv [OF inv] keeps_sys_ipc_try_send [OF inv us]
  show ?thesis unfolding syscall_def by (intro keeps_if keeps_void calls) (use n in blast)+
qed

section \<open>Stores to user memory\<close>

lemma kernel_inv_write_leaf:
  assumes inv: "kernel_inv s" and l: "leaves s (spaces s) f \<noteq> {}"
  shows "kernel_inv (s\<lparr>pmem := (pmem s)(f := g)\<rparr>)" (is "kernel_inv ?s'")
proof -
  from inv obtain ps es where ok: "kernel_ok s ps es" "cur_ok s" by (auto simp: kernel_inv_def)
  note k = kernel_okD [OF ok(1)]
  let ?D = "spaces s"
  have t: "tables_ok s ?D ps" using k(1) by (simp add: vm_ok_def)
  have f: "f \<notin> ?D \<union> tab s ` slots s ?D" using k(1) l by (auto simp: vm_ok_def leaves_ok_def)
  then have m: "\<forall>x \<in> ?D \<union> tab s ` slots s ?D. pmem ?s' x = pmem s x" by auto
  note fr = tables_frame [OF t m]
  have "set ps \<inter> (?D \<union> tab s ` slots s ?D \<union> tab s ` kslots s ?D) = {}" using t unfolding tables_ok_def by blast
  then have vm: "vm_ok ?s' ?D ps" using k(6) by (intro vm_ok_frame [OF k(1) m]) (simp_all add: phys_ok_frame)
  have own: "owned_once ?s' ?D" using k(2) fr(3) by (simp add: owned_once_def)
  have u: "uframes ?s' ?D ps \<subseteq> uframes s ?D ps \<union> {}" unfolding uframes_def fr(3,6) by blast
  have fU: "f \<in> uframes s ?D ps" using l by (simp add: uframes_def)
  have "kernel_ok ?s' ps es"
    by (rule kernel_ok_frames(1) [OF ok(1) vm own _ _ _ _ u]) (use fU in auto)
  moreover have "cur_ok ?s'" using ok(2) by (simp add: cur_ok_def)
  ultimately show ?thesis by (rule kernel_invI)
qed

lemma kstore8_leaf:
  assumes "cr3 s \<in> spaces s" and "va < UTOP" and "kstore8 va b s = Some s'"
  shows "\<exists>f g. leaves s (spaces s) f \<noteq> {} \<and> s' = s\<lparr>pmem := (pmem s)(f := g)\<rparr>"
proof -
  let ?d = "cr3 s" and ?i = "unat (PDX va)" and ?j = "unat (PTX va)"
  let ?f = "fr (pmem s (tab s (?d, ?i)) ?j)"
  have p: "pres (pmem s ?d ?i)" "pres (pmem s (tab s (?d, ?i)) ?j)"
    and s': "\<exists>g. s' = s\<lparr>pmem := (pmem s)(?f := g)\<rparr>"
    using assms(3) by (auto simp: kstore8_def Let_def pres_def tab_def fr_def split: if_splits)
  have "(?d, ?i, ?j) \<in> leaves s (spaces s) ?f" using p assms(1,2) user_pdx_iff by (simp add: leaves_def slots_def)
  then show ?thesis using s' by blast
qed

lemma kwrite_keeps:
  assumes "kernel_inv s" and "cr3 s \<in> spaces s" and "unat va + length bs \<le> unat UTOP" and "kwrite bs va s = Some s'"
  shows "kernel_inv s' \<and> (\<exists>m. s' = s\<lparr>pmem := m\<rparr>)"
  using assms
proof (induction bs arbitrary: va s)
  case Nil
  then show ?case by (auto intro: exI [of _ "pmem s"])
next
  case (Cons b bs)
  from Cons.prems(4) obtain s1 where s1: "kstore8 va b s = Some s1" "kwrite bs (va + 1) s1 = Some s'" by (auto simp: bind_Some)
  have va: "va < UTOP" using Cons.prems(3) by (simp add: word_less_nat_alt)
  from kstore8_leaf [OF Cons.prems(2) va s1(1)] obtain f g where
    f: "leaves s (spaces s) f \<noteq> {}" "s1 = s\<lparr>pmem := (pmem s)(f := g)\<rparr>" by blast
  have "kernel_inv s1" unfolding f(2) by (rule kernel_inv_write_leaf [OF Cons.prems(1) f(1)])
  moreover have "cr3 s1 \<in> spaces s1" using Cons.prems(2) f(2) by (simp add: spaces_def)
  moreover have "unat (va + 1) = unat va + 1" using Cons.prems(3) by (simp add: unat_word_ariths)
  ultimately have "kernel_inv s' \<and> (\<exists>m. s' = s1\<lparr>pmem := m\<rparr>)"
    using Cons.IH [OF _ _ _ s1(2)] Cons.prems(3) by simp
  then show ?case using f(2) by auto
qed

section \<open>The monitor\<close>

lemma find_stabs_core: "find_stabs addr s = Some (u, s') \<Longrightarrow> core s' = core s"
  unfolding find_stabs_def Let_def
  by (auto simp: bind_Some split: if_splits option.splits dest!: user_mem_check_core)

lemma debuginfo_core: "debuginfo_eip addr s = Some (u, s') \<Longrightarrow> core s' = core s"
  unfolding debuginfo_eip_def Let_def
  by (auto simp: bind_Some split: if_splits option.splits dest!: find_stabs_core)

lemma backtrace_core:
  assumes "backtrace_from fp s = Some s'"
  shows "core s' = core s"
proof (rule backtrace_from.raw_induct [where P = "\<lambda>_ s s'. core s' = core s", OF _ assms], goal_cases)
  case (1 f fp s s')
  show ?case
  proof (cases "fp = 0")
    case True
    then show ?thesis using 1(2) by simp
  next
    case False
    from 1(2) False obtain bs s1 u info s2 s3 where
      k: "core s1 = core s" "debuginfo_eip (le32 bs 1) s1 = Some ((u, info), s2)" "core s3 = core s2"
      "f (le32 bs 0) s3 = Some s'"
      by (auto simp: bind_Some Let_def dest!: quietD [OF quiet_kprintf [OF refl]])
    have "core s' = core s3" by (rule 1(1) [OF k(4)])
    then show ?thesis using k(1,3) debuginfo_core [OF k(2)] by simp
  qed
qed

lemma quiet_monitor_commands [quietly]:
  assumes t: "core t = core s"
  shows "quiet s (mon_help t)" and "quiet s (mon_kerninfo t)" and "quiet s (mon_backtrace t)"
proof -
  have f: "quiet s (foldM (\<lambda>(n, d). kprintf f [vstr n, vstr d]) cs t)" if "core t = core s" for f cs t
    using that by (induction cs arbitrary: t) (auto intro!: quietly)
  show "quiet s (mon_help t)" unfolding mon_help_def using f [OF t] by simp
  show "quiet s (mon_kerninfo t)" unfolding mon_kerninfo_def print_sym_def using t by (intro quietly)
  have "quiet s (backtrace_from fp u)" if "core u = core s" for fp u
    using that backtrace_core by (auto simp: quiet_def)
  then show "quiet s (mon_backtrace t)" unfolding mon_backtrace_def using t by (intro quietly)
qed

lemma tf_set_core: "core (snd (tf_set tf g s)) = core s"
  by (cases tf) (auto simp: tf_set_def core_def)

lemma keeps_quietly [keeping]: "quiet s m \<Longrightarrow> kernel_inv s \<Longrightarrow> keeps (do { s \<leftarrow> m; ret x s })"
  by (intro keeps_bind) (auto dest: quiet_inv)

lemma keeps_mon_continue:
  assumes inv: "kernel_inv s"
  shows "keeps (mon_continue tf s)"
  unfolding mon_continue_def
proof (intro keeps_bind keeps_if)
  show "keeps (leave (env_run c s))" if "curenv s = Some c" for c
    unfolding keeps_leave by (rule keeps_env_run [OF inv kernel_invD(2) [OF inv that]])
  show "keeps (ret (- 1) t)" if "kprintf (''trap is not caused by T_BRKPT/T_DEBUG'' @ nl) [] s = Some t" for t
    using quiet_inv [OF quiet_kprintf [OF refl] inv that] by simp
qed simp

lemma keeps_mon_singlestep:
  assumes inv: "kernel_inv s"
  shows "keeps (mon_singlestep tf s)"
proof -
  have "kernel_inv t" if "kprintf f x s = Some t" for f x t using quiet_inv [OF quiet_kprintf [OF refl] inv that] .
  moreover have "kernel_inv t" if "kprintf f x (snd (tf_set u g s)) = Some t" for f x u g t
    using quiet_inv [OF quiet_kprintf [OF refl] kernel_inv_core [OF tf_set_core inv] that] .
  ultimately show ?thesis unfolding mon_singlestep_def
    by (cases tf) (auto intro!: keeps_bind keeps_if simp: split_def Let_def)
qed

lemma keeps_runcmd:
  assumes inv: "kernel_inv s"
  shows "keeps (runcmd buf tf s)"
proof -
  note rules = keeps_if keeps_quietly [OF _ inv] quiet_kprintf quiet_monitor_commands refl
  have r: "keeps (ret (x, tf) s)" for x using inv by simp
  have c: "keeps (andthen (mon_continue tf s) (\<lambda>r. ret (r, tf)))"
    by (rule keeps_andthen [OF keeps_mon_continue [OF inv]]) (use keepsD [OF keeps_mon_continue [OF inv]] in auto)
  have g: "keeps (andthen (mon_singlestep tf s) (\<lambda>(r, tf). ret (r, Some tf)))"
    by (rule keeps_andthen [OF keeps_mon_singlestep [OF inv]])
      (use keepsD [OF keeps_mon_singlestep [OF inv]] in \<open>auto split: prod.split\<close>)
  show ?thesis
  proof (cases "parse_args [] buf")
    case None
    then show ?thesis unfolding runcmd_def by (simp only: option.case) (intro rules)
  next
    case (Some argv)
    then show ?thesis unfolding runcmd_def
      by (cases argv) (simp only: option.case list.case r, simp only: option.case list.case, intro rules c g)
  qed
qed

lemma keeps_monitor_loop: "kernel_inv s \<Longrightarrow> keeps (monitor_loop n tf s)"
proof (induction n arbitrary: tf s)
  case (Suc n)
  have i: "kernel_inv (s\<lparr>cons := con\<rparr>)" for con by (rule kernel_inv_core [OF _ Suc.prems]) (simp add: core_def)
  have "keeps (andthen (runcmd buf tf (s\<lparr>cons := con\<rparr>))
      (\<lambda>(r, tf) s. if r < 0 then ret () s else monitor_loop n tf s))" for buf con
    by (rule keeps_andthen [OF keeps_runcmd [OF i]])
      (use keepsD [OF keeps_runcmd [OF i]] Suc.IH in \<open>auto split: prod.split\<close>)
  then show ?case using Suc.IH i by (auto intro!: keeps_bind simp: Let_def split: line.split)
qed simp

lemma keeps_monitor [keeping]:
  assumes inv: "kernel_inv s"
  shows "keeps (monitor tf s)"
proof -
  have q: "quiet s (case tf of None \<Rightarrow> Some t | Some tf \<Rightarrow> print_trapframe tf t)" if "core t = core s" for t
    using that by (auto intro: quietly split: option.split)
  show ?thesis unfolding monitor_def
  proof (intro keeps_bind)
    fix s1 s2 s3 assume a: "kprintf (''Welcome to the JOS kernel monitor!'' @ nl) [] s = Some s1"
      "kprintf (''Type '' @ [CHR 0x27] @ ''help'' @ [CHR 0x27] @ '' for a list of commands.'' @ nl) [] s1 = Some s2"
      "(case tf of None \<Rightarrow> Some s2 | Some tf \<Rightarrow> print_trapframe tf s2) = Some s3"
    have "core s1 = core s" "core s2 = core s1" using quietD [OF quiet_kprintf [OF refl]] a(1,2) by blast+
    then have "core s3 = core s" using quietD [OF q a(3)] by simp
    from kernel_inv_core [OF this inv] show "keeps (monitor_loop (pending (cons s3) + 1) tf s3)"
      by (rule keeps_monitor_loop)
  qed
qed

end
