(* ===== verification/Kernel_Run.thy ===== *)
theory Kernel_Run
  imports Sys_Inv
begin

text \<open>
  The kernel over time.  A run is a sequence of traps from user mode or from the idle processor,
  stores by user code to its writable pages, and changes of the devices.  The invariant holds
  in every state a safe run reaches, and with it the isolation of user code from page tables and
  free frames.
\<close>

section \<open>Page faults\<close>

lemma unsaturated_core: "core s' = core s \<Longrightarrow> unsaturated s' = unsaturated s"
  by (simp add: core_def unsaturated_def)

lemma core_parts: "core s' = core s \<Longrightarrow> curenv s' = curenv s \<and> cr3 s' = cr3 s \<and> env_pgdir (envs s' e) = env_pgdir (envs s e)"
  by (auto simp: core_def fun_eq_iff)

lemma keeps_fault_destroy:
  assumes inv: "kernel_inv s" and c: "curenv s = Some c"
  shows "keeps (fault_destroy c va tf s)"
  unfolding fault_destroy_def
proof (intro keeps_bind)
  fix s1 s2 assume a: "kprintf (''[%08x] user fault va %08x ip %08x'' @ nl)
      [VInt (env_id (envs s c)), VInt va, VInt (tf_eip (tf_get tf s))] s = Some s1" "print_trapframe tf s1 = Some s2"
  have "core s1 = core s" using quietD [OF quiet_kprintf [OF refl] a(1)] .
  then have k: "core s2 = core s" using quietD [OF quiet_print_trapframe a(2)] by blast
  have inv2: "kernel_inv s2" by (rule kernel_inv_core [OF k inv])
  then show "keeps (env_destroy c s2)"
    using core_parts [OF k, of c] c kernel_invD(2,3) [OF inv2, of c] by (intro keeps_env_destroy) auto
qed

text \<open>For the current environment \<^verbatim>\<open>user_mem_assert\<close> returns only when the memory is there.\<close>

lemma env_destroy_current:
  assumes inv: "kernel_inv s" and c: "curenv s = Some c"
  shows "env_destroy c s \<noteq> Some (Returns u, s')"
proof -
  from inv obtain ps es where ok: "kernel_ok s ps es" by (auto simp: kernel_inv_def)
  from kernel_ok_env_free [OF ok kernel_invD(2,3) [OF inv c]] obtain s1 where
    "env_free c s = Some s1" "curenv s1 = curenv s" by blast
  then show ?thesis using c by (auto simp: env_destroy_def split: bind_splits)
qed

lemma user_mem_assert_returns:
  assumes inv: "kernel_inv s" and c: "curenv s = Some c" and r: "user_mem_assert c va len perm s = Some (Returns u, s')"
  shows "core s' = core s"
proof -
  from r obtain r' s1 where ch: "user_mem_check c va len (perm OR PTE_U) s = Some (r', s1)"
    by (auto simp: user_mem_assert_def bind_Some)
  note k = user_mem_check_core [OF ch, THEN conjunct1]
  have "env_destroy c s2 \<noteq> Some (Returns u, s')" if "kprintf f x s1 = Some s2" for f x s2
  proof -
    have "core s2 = core s" using quietD [OF quiet_kprintf [OF refl] that] k by simp
    from env_destroy_current [OF kernel_inv_core [OF this inv]] core_parts [OF this, of c] c show ?thesis by simp
  qed
  then have "s' = s1" using r ch by (auto simp: user_mem_assert_def bind_Some split: if_splits)
  with k show ?thesis by simp
qed

lemma utf_fits:
  assumes "utf_addr f > UXSTACKTOP - PGSIZE"
  shows "unat (utf_addr f) + length (utf_bytes va g) \<le> unat UTOP"
proof -
  have "length (utf_bytes va g) = 52" by (simp add: utf_bytes_def Let_def bytes32_def)
  moreover have "unat (utf_addr f) + 52 \<le> unat UTOP"
    using assms by (auto simp: utf_addr_def word_le_nat_alt word_less_nat_alt jos_consts unat_sub_if' split: if_splits)
  ultimately show ?thesis by simp
qed

lemma keeps_page_fault_handler:
  assumes inv: "kernel_inv s"
  shows "keeps (page_fault_handler tf s)"
  unfolding page_fault_handler_def Let_def
proof (intro keeps_if keeps_bind keeps_andthen)
  fix c assume c: "curenv s = Some c"
  show "keeps (fault_destroy c (cr2 s) tf s)" by (rule keeps_fault_destroy [OF inv c])
  show "keeps (user_mem_assert c (utf_addr (tf_get tf s)) sizeof_UTrapframe PTE_W s)"
    using kernel_invD(2,3) [OF inv c] by (intro keeps_user_mem_assert [OF inv]) auto
  fix u s1 assume r: "user_mem_assert c (utf_addr (tf_get tf s)) sizeof_UTrapframe PTE_W s = Some (Returns u, s1)"
  note k = user_mem_assert_returns [OF inv c r]
  have i1: "kernel_inv s1" by (rule kernel_inv_core [OF k inv])
  have c1: "curenv s1 = Some c" using core_parts [OF k] c by simp
  show "keeps (fault_destroy c (cr2 s) tf s1)" by (rule keeps_fault_destroy [OF i1 c1])
  fix s2 assume utf: "utf_addr (tf_get tf s) > UXSTACKTOP - PGSIZE"
    and w: "kwrite (utf_bytes (cr2 s) (tf_get tf s1)) (utf_addr (tf_get tf s)) s1 = Some s2"
  have "cr3 s1 \<in> spaces s1" using space_mem [OF kernel_invD(2,3) [OF i1 c1]] .
  from kwrite_keeps [OF i1 this utf_fits [OF utf] w] have i2: "kernel_inv s2" by blast
  have "kernel_inv (upd_env c (\<lambda>x. x\<lparr>env_tf := g x\<rparr>) s2)" for g
    by (rule kernel_inv_core [OF _ i2]) (auto simp: core_def)
  then show "keeps (leave (env_run c (upd_env c (\<lambda>x. x\<lparr>env_tf := (env_tf x)\<lparr>tf_esp := utf_addr (tf_get tf s),
      tf_eip := env_pgfault_upcall x\<rparr>\<rparr>) s2)))"
    unfolding keeps_leave by (intro keeps_env_run kernel_invD(2) [OF inv c])
qed simp

section \<open>Traps\<close>

text \<open>
  What the kernel takes for granted and does not enforce.  A system call comes from user mode; the
  packet calls are used as in \<^const>\<open>pkt_args_ok\<close>; and when \<^verbatim>\<open>sys_page_map\<close> or \<^verbatim>\<open>sys_ipc_try_send\<close>
  may map a frame once more, no 16-bit reference count is at its maximum.  User code can break
  the last two conditions.
\<close>

definition call_safe :: "kstate \<Rightarrow> u32 \<Rightarrow> u32 \<Rightarrow> bool" where
  "call_safe s n len \<longleftrightarrow> pkt_args_ok n len s \<and> (n = SYS_page_map \<or> n = SYS_ipc_try_send \<longrightarrow> unsaturated s)"

definition trap_safe :: "kstate \<Rightarrow> Trapframe \<Rightarrow> bool" where
  "trap_safe s f \<longleftrightarrow> (tf_trapno f = T_SYSCALL \<longrightarrow>
     tf_cs f AND 3 = 3 \<and> call_safe s (reg_eax (tf_regs f)) (reg_ecx (tf_regs f)))"

lemma call_safe_core: "core s' = core s \<Longrightarrow> nic s' = nic s \<Longrightarrow> call_safe s' n len = call_safe s n len"
  using unsaturated_core [of s' s] by (simp add: call_safe_def pkt_args_ok_def)

lemma keeps_trap_dispatch:
  assumes inv: "kernel_inv s"
    and sc: "tf_trapno (tf_get tf s) = T_SYSCALL \<Longrightarrow> curenv s \<noteq> None \<and>
      call_safe s (reg_eax (tf_regs (tf_get tf s))) (reg_ecx (tf_regs (tf_get tf s)))"
  shows "keeps (trap_dispatch tf s)"
proof -
  let ?f = "tf_get tf s"
  have q: "kernel_inv t" if "kprintf f x s = Some t" for f x t using quiet_inv [OF quiet_kprintf [OF refl] inv that] .
  have p: "kernel_inv t" if "kernel_inv s1" "print_trapframe tf s1 = Some t" for s1 t
    using quiet_inv [OF quiet_print_trapframe [OF refl] that] .
  have brk: "keeps (do { s \<leftarrow> kprintf g x s; monitor (Some tf) s })" for g x
    using q by (intro keeps_bind keeps_monitor)
  have sys: "keeps (andthen (syscall n a b c d e s) (\<lambda>v s. ret () (snd (tf_set tf (g v) s))))"
    if "keeps (syscall n a b c d e s)" for n a b c d e g
    using that kernel_inv_core [OF tf_set_core keepsD [OF that]] by (intro keeps_andthen) auto
  have call: "keeps (syscall (reg_eax (tf_regs ?f)) a b c d e s)" if "tf_trapno ?f = T_SYSCALL" for a b c d e
  proof -
    from sc [OF that] obtain y where y: "curenv s = Some y" by blast
    show ?thesis by (rule keeps_syscall [OF inv y]) (use sc [OF that] in \<open>auto simp: call_safe_def pkt_args_ok_def\<close>)
  qed
  have spur: "keeps (do { s \<leftarrow> kprintf g x s; s \<leftarrow> print_trapframe tf s; ret () s })" for g x
    using p [OF q] by (intro keeps_bind) auto
  have tick: "keeps (do { s \<leftarrow> time_tick s; leave (sched_yield s) } :: unit kres)"
  proof (intro keeps_bind)
    fix t assume "time_tick s = Some t"
    then have "kernel_inv t" by (intro kernel_inv_core [OF _ inv]) (auto simp: time_tick_def Let_def core_def split: if_splits)
    then show "keeps (leave (sched_yield t) :: unit kres)" unfolding keeps_leave by (rule keeps_sched_yield)
  qed
  have dev: "kernel_inv (s\<lparr>cons := con\<rparr>)" for con by (rule kernel_inv_core [OF _ inv]) (simp add: core_def)
  have other: "keeps (do { s \<leftarrow> print_trapframe tf s; if tf_cs ?f = GD_KT then None else do { c \<leftarrow> curenv s; env_destroy c s } })"
    using kernel_invD(2,3) [OF p [OF inv]] by (intro keeps_bind keeps_if keeps_env_destroy p [OF inv]) auto
  show ?thesis unfolding trap_dispatch_def Let_def
    by (intro keeps_if keeps_page_fault_handler [OF inv] brk sys call spur tick other)
      (auto intro!: keeps_bind simp: dev)
qed

lemma keeps_resume:
  "kernel_inv s \<Longrightarrow> keeps (case curenv s of
      Some c \<Rightarrow> if env_status (envs s c) = ENV_RUNNING then env_run c s else sched_yield s | None \<Rightarrow> sched_yield s)"
  by (auto simp: keeps_env_run keeps_sched_yield kernel_invD(2) split: option.split)

lemma keeps_trap_on:
  assumes inv: "kernel_inv s"
    and sc: "tf_trapno (tf_get tf s) = T_SYSCALL \<Longrightarrow> curenv s \<noteq> None \<and>
      call_safe s (reg_eax (tf_regs (tf_get tf s))) (reg_ecx (tf_regs (tf_get tf s)))"
  shows "keeps (trap_on tf s)"
proof -
  let ?s = "s\<lparr>last_tf := tf_addr tf s\<rparr>"
  have k: "core ?s = core s" by (simp add: core_def)
  have f: "tf_get tf ?s = tf_get tf s" by (simp add: tf_get_def split: tfp.split)
  have d: "keeps (trap_dispatch tf ?s)"
    by (rule keeps_trap_dispatch [OF kernel_inv_core [OF k inv]]) (use sc call_safe_core [OF k] in \<open>simp add: f\<close>)
  show ?thesis unfolding trap_on_def
  proof (intro keeps_bind2)
    fix x t assume "trap_dispatch tf ?s = Some (x, t)"
    then have "kernel_inv t" by (rule keepsD [OF d])
    then show "keeps (case x of Returns _ \<Rightarrow> (case curenv t of
        Some c \<Rightarrow> if env_status (envs t c) = ENV_RUNNING then env_run c t else sched_yield t | None \<Rightarrow> sched_yield t)
      | Leaves x \<Rightarrow> Some (x, t))"
      using keeps_resume by (cases x) auto
  qed
qed

lemma keeps_reap:
  assumes inv: "kernel_inv s" and c: "curenv s = Some c" and fr: "env_free c s = Some t"
  shows "keeps (sched_yield (t\<lparr>curenv := None\<rparr>))"
proof -
  from inv obtain ps es where ok: "kernel_ok s ps es" by (auto simp: kernel_inv_def)
  from kernel_ok_env_free [OF ok kernel_invD(2,3) [OF inv c]] obtain s' ps' where
    f: "env_free c s = Some s'" "kernel_ok s' ps' (c # es)"
      "\<And>x. x \<noteq> c \<Longrightarrow> envs s' x = envs s x" "env_ipc_dstva (envs s' c) = env_ipc_dstva (envs s c)" by blast
  have "env_ipc_dstva (envs s' x) < UTOP" for x using kernel_invD(1) [OF inv] f(3,4) by (cases "x = c") auto
  moreover have "kernel_ok (s'\<lparr>curenv := None\<rparr>) ps' (c # es)" by (rule kernel_ok_cong [OF f(2)]) simp_all
  ultimately have "kernel_inv (s'\<lparr>curenv := None\<rparr>)" by (intro kernel_invI) (auto simp: cur_ok_def)
  then show ?thesis using f(1) fr keeps_sched_yield by simp
qed

lemma keeps_trap:
  assumes inv: "kernel_inv s" and al: "trap_safe s f"
  shows "keeps (trap a f s)"
proof -
  have st: "core s1 = core s \<and> nic s1 = nic s"
    if "(if cpu_status s = CPU_HALTED then lock_kernel (s\<lparr>cpu_status := CPU_STARTED\<rparr>)
         else Some (s\<lparr>cpu_status := CPU_STARTED\<rparr>)) = Some s1" for s1
    using that by (auto simp: lock_kernel_def core_def split: if_splits)
  have k: "kernel_inv t" if "core t = core s" for t using kernel_inv_core [OF that inv] .
  have safe: "call_safe t (reg_eax (tf_regs f)) (reg_ecx (tf_regs f)) \<and> tf_cs f AND 3 = 3"
    if "tf_trapno f = T_SYSCALL" "core t = core s" "nic t = nic s" for t
    using al that call_safe_core [OF that(2,3)] by (simp add: trap_safe_def)
  show ?thesis unfolding trap_def
  proof (intro keeps_if keeps_bind)
    fix s1 assume a1: "(if cpu_status s = CPU_HALTED then lock_kernel (s\<lparr>cpu_status := CPU_STARTED\<rparr>)
         else Some (s\<lparr>cpu_status := CPU_STARTED\<rparr>)) = Some s1"
    note c1 = st [OF a1, THEN conjunct1] and n1 = st [OF a1, THEN conjunct2]
    show "keeps (trap_on (StackTf a f) s1)" if "tf_cs f AND 3 \<noteq> 3"
      by (rule keeps_trap_on [OF k [OF c1]]) (use that safe [OF _ c1 n1] in \<open>auto simp: tf_get_def\<close>)
    fix c s2 assume c: "curenv s1 = Some c" and l: "lock_kernel s1 = Some s2"
    have c2: "core s2 = core s" and n2: "nic s2 = nic s"
      using l c1 n1 by (auto simp: lock_kernel_def core_def split: if_splits)
    have cur: "curenv s2 = Some c" using c core_parts [OF c1] core_parts [OF c2] by simp
    show "keeps (sched_yield (t\<lparr>curenv := None\<rparr>))" if "env_free c s2 = Some t" for t
      by (rule keeps_reap [OF k [OF c2] cur that])
    let ?s = "upd_env c (\<lambda>x. x\<lparr>env_tf := f\<rparr>) s2"
    have c3: "core ?s = core s" and n3: "nic ?s = nic s" using c2 n2 by (auto simp: core_def fun_eq_iff)
    show "keeps (trap_on (EnvTf c) ?s)"
      by (rule keeps_trap_on [OF k [OF c3]]) (use cur safe [OF _ c3 n3] in \<open>auto simp: tf_get_def\<close>)
  qed (use inv in simp_all)
qed

section \<open>Runs\<close>

text \<open>
  A run from \<open>s0\<close> with the traps that happened, each with the state it happened in.  User code
  stores through the page tables to pages its environment may write; the devices and the registers
  that do not hold addresses change at will; the kernel handles a trap.  A trap in which the
  kernel panics ends the run.
\<close>

inductive kernel_run :: "kstate \<Rightarrow> (kstate \<times> Trapframe) list \<Rightarrow> kstate \<Rightarrow> bool" for s0 where
  boot: "kernel_run s0 [] s0"
| user_store: "kernel_run s0 tr s \<Longrightarrow> curenv s = Some c \<Longrightarrow> vmap s (cr3 s) n = Some (p, fl) \<Longrightarrow> fl AND PTE_W \<noteq> 0 \<Longrightarrow>
    fl AND PTE_U \<noteq> 0 \<Longrightarrow> kernel_run s0 tr (s\<lparr>pmem := (pmem s)(p := g)\<rparr>)"
| devices: "kernel_run s0 tr s \<Longrightarrow> kernel_run s0 tr (s\<lparr>cons := con, nic := n, cr2 := a, ebp := b, eflags := w\<rparr>)"
| kernel: "kernel_run s0 tr s \<Longrightarrow> trap a f s = Some (x, s') \<Longrightarrow> kernel_run s0 (tr @ [(s, f)]) s'"

text \<open>Every trap of the run was one the kernel can cope with.\<close>

definition run_safe :: "(kstate \<times> Trapframe) list \<Rightarrow> bool" where
  "run_safe tr = list_all (\<lambda>(s, f). trap_safe s f) tr"

lemma vmap_leaf:
  assumes "d \<in> D" and "vmap s d n = Some (p, fl)"
  shows "leaves s D p \<noteq> {}"
proof -
  have "(d, n div 1024, n mod 1024) \<in> leaves s D p"
    using assms by (auto simp: vmap_def Let_def leaves_def slots_def less_mult_imp_div_less split: if_splits)
  then show ?thesis by blast
qed

lemma kernel_run_inv:
  assumes "kernel_run s0 tr s" and "kernel_inv s0" and "run_safe tr"
  shows "kernel_inv s"
  using assms
proof (induction rule: kernel_run.induct)
  case (user_store tr s c n p fl g)
  then have inv: "kernel_inv s" by simp
  have "cr3 s \<in> spaces s" using space_mem kernel_invD(2,3) [OF inv user_store(2)] by blast
  from kernel_inv_write_leaf [OF inv vmap_leaf [OF this user_store(3)]] show ?case .
next
  case (devices tr s con n a b w)
  then have "kernel_inv s" by simp
  then show ?case by (rule kernel_inv_core [rotated]) (simp add: core_def)
next
  case (kernel tr s a f x s')
  then have "kernel_inv s" "trap_safe s f" by (auto simp: run_safe_def)
  from keepsD [OF keeps_trap [OF this] kernel(2)] show ?case .
qed

section \<open>Properties\<close>

definition demo5 :: kstate where
  "demo5 = demo4\<lparr>klock := False\<rparr>"

lemma demo5_inv: "kernel_inv demo5" "unsaturated demo5"
  by (rule kernel_inv_core [OF _ demo4_inv]) (simp_all add: core_def demo5_def unsaturated_def)

lemma demo5_getenvid: "\<exists>s'. trap 0xEFFFFFBC getenvid_tf demo5 = Some (RunEnv 0, s')"
proof -
  have "panicstr demo5 = False" "eflags demo5 = 0" "cpu_status demo5 = 0" "klock demo5 = False" "curenv demo5 = Some 0"
    "env_status (envs demo5 0) = ENV_RUNNING" "env_pgdir (envs demo5 0) = Some 1"
    by (simp_all add: demo5_def) (simp_all add: demo4_def demo_def)
  then show ?thesis
    by (simp add: trap_def trap_on_def trap_dispatch_def tf_get_def tf_set_def syscall_def sys_getenvid_def ret_def andthen_def
      env_run_def env_pop_tf_def lock_kernel_def unlock_kernel_def getenvid_tf_def fresh_tf_def zero_tf_def zero_regs_def
      Let_def jos_consts)
qed

lemma getenvid_safe: "trap_safe s getenvid_tf"
  by (simp add: trap_safe_def call_safe_def pkt_args_ok_def getenvid_tf_def fresh_tf_def zero_regs_def jos_consts)

text \<open>
  (C1) The invariant of the kernel survives every safe run: any interleaving of stores by user code
  through its page tables, device activity and traps.  The run is safe if every system call in
  it comes from user mode, none is \<^verbatim>\<open>sys_pkt_try_recv\<close>, a packet sent is no longer than its buffer
  and the card's tail register is inside the ring, and no reference count is at 65535 when
  \<^verbatim>\<open>sys_page_map\<close> or \<^verbatim>\<open>sys_ipc_try_send\<close> is called; the calls and their arguments are arbitrary
  otherwise.  User code can break each of the last three conditions, since the kernel does not
  check them.
\<close>

theorem kernel_run_keeps_invariant:
  assumes "kernel_inv s0" and "kernel_run s0 tr s" and "run_safe tr"
  shows "kernel_inv s"
  using kernel_run_inv assms by blast

theorem kernel_run_keeps_invariant_witness:
  "\<exists>s'. trap 0xEFFFFFBC getenvid_tf demo5 = Some (RunEnv 0, s') \<and> kernel_inv s'"
proof -
  obtain s' where t: "trap 0xEFFFFFBC getenvid_tf demo5 = Some (RunEnv 0, s')" using demo5_getenvid by blast
  have "kernel_run demo5 [(demo5, getenvid_tf)] s'" using kernel_run.kernel [OF kernel_run.boot t] by simp
  from kernel_run_keeps_invariant [OF demo5_inv(1) this] t show ?thesis by (simp add: run_safe_def getenvid_safe)
qed

text \<open>
  (C2) Isolation: in every state a safe run reaches (safe as in the theorem before: in particular no
  reference count is about to wrap, which would free a frame that is still mapped), a frame that
  some environment has mapped below \<^verbatim>\<open>UTOP\<close> is a frame of memory that is counted as referenced, is
  not on the free list, and is neither a page directory nor a page table of any environment nor
  one of the kernel's own.
\<close>

theorem user_mappings_isolated:
  assumes "kernel_inv s0" and "kernel_run s0 tr s" and "run_safe tr" and "d \<in> spaces s" and "vmap s d n = Some (p, fl)"
  shows "p < npages s \<and> pp_ref (pages s p) \<noteq> 0 \<and> (\<forall>ps. phys_ok s ps \<longrightarrow> p \<notin> set ps) \<and>
     p \<notin> spaces s \<and> p \<notin> tab s ` slots s (spaces s) \<and> p \<notin> kframes s"
proof -
  have "kernel_inv s" using kernel_run_inv assms by blast
  then obtain ps es where ok: "kernel_ok s ps es" by (auto simp: kernel_inv_def)
  note vm = kernel_okD(1) [OF ok]
  have l: "leaves s (spaces s) p \<noteq> {}" by (rule vmap_leaf [OF assms(4,5)])
  then have "p < npages s" "p \<notin> spaces s" "p \<notin> tab s ` slots s (spaces s)"
    using vm by (auto simp: vm_ok_def leaves_ok_def)
  moreover have "p \<notin> kframes s" using kernel_okD(3) [OF ok] l by (auto simp: kframes_ok_def uframes_def)
  moreover have "p \<notin> set qs" if "phys_ok s qs" for qs
    using leaf_not_free [OF vm l] phys_ok_unique [OF that kernel_okD(6) [OF ok]] by simp
  moreover have "pp_ref (pages s p) \<noteq> 0"
  proof -
    have "finite (leaves s (spaces s) p)" using vm by (intro finite_leaves) (auto simp: vm_defs)
    then have "0 < card (leaves s (spaces s) p)" using l by (simp add: card_gt_0_iff)
    moreover have "card (leaves s (spaces s) p) \<le> unat (pp_ref (pages s p))" using vm by (simp add: vm_ok_def refs_ok_def)
    ultimately show ?thesis by auto
  qed
  ultimately show ?thesis by blast
qed

lemma demo5_map:
  "\<exists>s'. page_insert 1 5 0x800000 (PTE_U OR PTE_W) demo5 = Some (0, s') \<and> kernel_inv s' \<and>
     vmap s' 1 (vpn 0x800000) = Some (5, (PTE_U OR PTE_W) OR PTE_P) \<and> 1 \<in> spaces s'"
proof -
  have ok: "kernel_ok demo5 [2, 3] [1..<NENV]" "cur_ok demo5"
    using kernel_ok_cong [OF demo4_ok(1), of demo5] demo4_ok(2) by (simp_all add: demo5_def cur_ok_def)
  have sp: "spaces demo5 = {1}" using demo4_spaces spaces_cong [of demo5 demo4] by (simp add: demo5_def)
  have sl: "slots demo5 D = {}" "kslots demo5 D = {}" for D by (simp_all add: slots_def kslots_def demo5_def)
  have m: "mappable demo5 (spaces demo5) [2, 3] 5" unfolding mappable_def sl sp by (simp add: demo5_def)
  have k: "5 \<notin> kframes demo5" unfolding kframes_def sl by (simp add: demo5_def)
  have va: "(0x800000 :: u32) < UTOP" "flags_only (PTE_U OR PTE_W)" by (simp_all add: flags_only_def jos_consts)
  show ?thesis
    by (cases rule: kernel_page_insert [OF ok _ va(1) m k va(2), of 1])
      (auto simp: sp remapped_def intro: kernel_invI)
qed

theorem user_mappings_isolated_witness:
  "\<exists>s. vmap s 1 (vpn 0x800000) = Some (5, (PTE_U OR PTE_W) OR PTE_P) \<and>
     5 < npages s \<and> pp_ref (pages s 5) \<noteq> 0 \<and> 5 \<notin> tab s ` slots s (spaces s) \<and> 5 \<notin> kframes s"
proof -
  obtain s0 where s0: "kernel_inv s0" "vmap s0 1 (vpn 0x800000) = Some (5, (PTE_U OR PTE_W) OR PTE_P)" "1 \<in> spaces s0"
    using demo5_map by blast
  let ?s = "s0\<lparr>cons := demo_console, nic := demo_nic, cr2 := 0, ebp := 0, eflags := 0\<rparr>"
  have run: "kernel_run s0 [] ?s" by (rule kernel_run.devices [OF kernel_run.boot])
  have v: "vmap ?s 1 (vpn 0x800000) = Some (5, (PTE_U OR PTE_W) OR PTE_P)" "1 \<in> spaces ?s"
    using s0(2,3) by (simp_all add: vmap_def tab_def spaces_def)
  from user_mappings_isolated [OF s0(1) run _ v(2,1)] v(1) show ?thesis
    by (intro exI [of _ ?s]) (simp add: run_safe_def)
qed

end
