(* ===== verification/Spec2Isabelle.thy ===== *)
theory Spec2Isabelle
  imports Kernel_Run
begin

text \<open>
  \<^bold>\<open>JOS: a verification of the kernel in \<^verbatim>\<open>src/code\<close>.\<close>

  JOS is a small exokernel for the 32-bit x86.  It manages frames of memory and two-level page
  tables, runs \<^emph>\<open>environments\<close> (processes) round-robin, handles traps and system calls, and drives
  a console and a network card.  The theories follow the source: each definition translates the
  C function of the same name.

  \<^bold>\<open>Conventions.\<close>
  The global variables of the kernel and the registers it uses are one record, \<^typ>\<open>kstate\<close>; a function
  takes it and returns it updated.  \<open>None\<close> in the option monad is a panic, a fault in the kernel or
  undefined behaviour of the C code.  The kernel's image, its stacks and the devices are fields of the
  record and not part of its physical memory, so a C function that is made to overwrite them through
  a bad pointer or length is outside the model.  Machine integers are words of their width, so that they wrap;
  results that C passes as \<^verbatim>\<open>int\<close>, the negative error codes among them, are \<^typ>\<open>int\<close>.  A pointer
  into an array is an index, \<^verbatim>\<open>NULL\<close> is \<open>None\<close>, physical memory is a function from frame number and
  word index to a word.  A function that leaves the kernel instead of returning yields an
  \<^typ>\<open>exit\<close>; one that may do either yields a \<open>flow\<close>.  The model is of one processor.

  \<^bold>\<open>Theories, from the bottom up.\<close>
  \<^item> \<open>Prelude\<close>: words, the loop \<open>foldM\<close> in the option monad, linked lists threaded through arrays
    (locale \<open>linked_nodes\<close>, interpreted for page descriptors and environments in \<open>KState\<close>).
    \<open>Ring\<close>: an array used as a circular buffer, and the locale \<open>fifo\<close> that the console interprets.
  \<^item> \<open>Cstring\<close>: \<^verbatim>\<open>lib/string.c\<close> on a memory of bytes; equivalence of the block operations with their
    mathematical meaning, order and bounds of the string operations.
  \<^item> \<open>Console\<close>: \<^verbatim>\<open>kern/console.c\<close>; input is a queue, output stays on the screen, polling ends.
  \<^item> \<open>Printfmt\<close>: \<^verbatim>\<open>lib/printfmt.c\<close>, \<^verbatim>\<open>kern/printf.c\<close>; output into a buffer is bounded, printing and
    \<^verbatim>\<open>strtol\<close> are inverse.
  \<^item> \<open>E1000\<close>: \<^verbatim>\<open>kern/e1000.c\<close>; transmission refines a queue of packets.
  \<^item> \<open>Mmu\<close>, \<open>KState\<close>: the headers \<^verbatim>\<open>inc/mmu.h\<close>, \<^verbatim>\<open>inc/memlayout.h\<close>, \<^verbatim>\<open>inc/env.h\<close>, \<^verbatim>\<open>inc/trap.h\<close>: the
    address macros, the records and the state.
  \<^item> \<open>Pmap\<close>: \<^verbatim>\<open>kern/pmap.c\<close>.  \<open>Pmap_Correct\<close>: the free list of frames.  \<open>Vm\<close>: the invariant \<open>vm_ok\<close>
    of a family of address spaces.  \<open>Vmap\<close>: an address space as a finite map, which
    \<^verbatim>\<open>page_insert\<close>, \<^verbatim>\<open>page_remove\<close> and \<^verbatim>\<open>page_lookup\<close> update, delete from and look up (locale
    \<open>address_spaces\<close>).  \<open>Vsteps\<close>: the mapping operations as sequences of elementary steps, over
    which invariants are proved by rule induction.
  \<^item> \<open>Environment\<close>: \<^verbatim>\<open>kern/env.c\<close> and \<^verbatim>\<open>kern/sched.c\<close>.  \<open>Env_Free\<close>, \<open>Env_Alloc\<close>: destruction gives back
    exactly what the environment held; identifiers are fresh.  \<open>Sched\<close>: the choice is round-robin,
    and nobody starves while the environments chosen are not destroyed.
  \<^item> \<open>Syscall\<close>: \<^verbatim>\<open>kern/syscall.c\<close>, \<^verbatim>\<open>kern/time.c\<close>.  \<open>Kdebug\<close>, \<open>Monitor\<close>, \<open>Trap\<close>: \<^verbatim>\<open>kern/kdebug.c\<close>,
    \<^verbatim>\<open>kern/monitor.c\<close> with \<^verbatim>\<open>lib/readline.c\<close>, \<^verbatim>\<open>kern/trap.c\<close>; the search for a stab finds its region,
    reading a line ends and stays within its buffer, a trap leaves the processor in a consistent state.
  \<^item> \<open>Kernel_Inv\<close>: the invariant of the whole kernel.  \<open>Sys_Mem\<close>: what the system calls on memory do,
    on every branch.  \<open>Sys_Inv\<close>: every other call keeps the invariant.  \<open>Kernel_Run\<close>: so does every
    safe run, and in it user code never has a frame of the free list or of a page table mapped.

  \<^bold>\<open>The invariant.\<close>
  \<^const>\<open>kernel_inv\<close> ties together the free list of frames (\<^const>\<open>phys_ok\<close>), the page tables of all
  environments and the reference counts (\<^const>\<open>vm_ok\<close>, \<^const>\<open>owned_once\<close>), the page tables of the kernel
  (\<^const>\<open>kframes_ok\<close>), the free list of environments (\<^const>\<open>envs_ok\<close>) and the current environment
  (\<^const>\<open>cur_ok\<close>).  A run, \<^const>\<open>kernel_run\<close>, records its traps; the invariant holds along a run whose
  traps are all \<^const>\<open>trap_safe\<close>.  These are conditions that the code does not enforce and that user
  code can break:
  \<^item> no 16-bit reference count is at its maximum (\<^const>\<open>unsaturated\<close>) when \<^verbatim>\<open>sys_page_map\<close> or
    \<^verbatim>\<open>sys_ipc_try_send\<close> is called; otherwise \<^verbatim>\<open>pp_ref++\<close> wraps and a mapped frame can be freed;
  \<^item> \<^verbatim>\<open>sys_pkt_try_recv\<close>, which stores through unchecked pointers, is not called, and a packet given to
    \<^verbatim>\<open>sys_pkt_try_send\<close> fits its buffer (\<^const>\<open>pkt_args_ok\<close>); otherwise the C code goes on with
    overwritten kernel data.
  User code is taken to store through the page tables in force: a stale entry of the translation
  buffer, which \<^verbatim>\<open>page_insert\<close> can leave behind when it only lowers permissions, is not part of a run.

  \<^bold>\<open>Bounds.\<close>
  The loops over pages and addresses count pages, and both ends are aligned, so the counter
  reaches zero exactly when the C loop ends.  Reading a line and the monitor's loop take the number
  of characters the devices can still deliver, plus one; when no character is left they end in the
  value that stands for waiting, and for reading a line this bound is proved to be enough.  The search over stabs and the splitting of a command line are
  total functions with their termination proofs; a backtrace may follow a cyclic chain of frame
  pointers for ever and is a partial function.

  \<^bold>\<open>Not modelled.\<close>
  Assembly (boot, entry and trap stubs), the programming of interrupt controllers, PCI and the
  other processors, and the order of the initialisation in \<^verbatim>\<open>kern/init.c\<close> and \<^verbatim>\<open>mem_init\<close>: their effects are
  on devices outside the state.  The file system server \<^verbatim>\<open>fs/\<close>, the user library above the system
  calls, the user programs and the network server are user environments to this kernel: the runs
  above cover whatever they do.  \<^verbatim>\<open>net/lwip\<close> is third-party code.  The other directories of the
  repository are exercises on a different kernel (xv6) and on a Unix host.
\<close>

end
